theory Spec2Isabelle
  imports Complex_Main "HOL-Library.Log_Nat"
begin

section \<open>The IGC feature format (src/ol/format/IGC.js)\<close>

text \<open>
  A shallow embedding of the class \<open>IGC\<close> of \<open>ol/format/IGC.js\<close>: its regular
  expressions, the line loop of \<open>readFeatureFromText\<close>, \<open>readFeaturesFromText\<close>
  and the four stub methods.

  Conventions of the model.
  \<^item> A JavaScript string is a \<open>string\<close>: a list of code units. IGC is an ASCII format;
    code units above 255 (among them the line terminators U+2028 and U+2029, which
    \<open>.\<close> refuses) are not representable and are outside the model.
  \<^item> A JavaScript number is a double. The model holds its exact value as a \<open>rat\<close>,
    and rounds where the source's arithmetic rounds: the quotient by 60000 and the
    sum of degrees and minutes of a coordinate go through \<open>fl64\<close>, rounding to the
    nearest double. The date context and the millisecond timestamps are integers far
    below \<open>2 ^ 53\<close>, modelled as \<open>int\<close>; a timestamp is a multiple of 1000, so the
    time component (the quotient by 1000) and the altitude are integers too, exact as
    doubles.
  \<^item> \<open>Date.UTC\<close> is modelled after ECMAScript's \<open>MakeDay\<close>, \<open>MakeTime\<close> and
    \<open>MakeDate\<close>; \<open>TimeClip\<close> is the identity on every value the decoder can reach.
  \<^item> \<open>transformWithOptions(lineString, false, opt_options)\<close> lives outside this file
    of the repository; it is the parameter \<open>tr\<close> of \<open>readFeatureFromText\<close>.
\<close>

subsection \<open>Regular expressions\<close>

definition isDigit :: "char \<Rightarrow> bool" where
  "isDigit c = (c \<in> set ''0123456789'')"

definition isUpper :: "char \<Rightarrow> bool" where
  "isUpper c = (c \<in> set ''ABCDEFGHIJKLMNOPQRSTUVWXYZ'')"

text \<open>The class \<open>.\<close>: every code unit but a line terminator.\<close>

definition isDot :: "char \<Rightarrow> bool" where
  "isDot c = (c \<noteq> CHR 0x0A \<and> c \<noteq> CHR 0x0D)"

definition oneOf :: "string \<Rightarrow> char \<Rightarrow> bool" where
  "oneOf cs c = (c \<in> set cs)"

text \<open>
  The three patterns are anchored at \<open>^\<close> and made of fixed-width pieces: a literal, a
  character class repeated \<open>n\<close> times outside a group (\<open>Skip\<close>) or inside one
  (\<open>Group\<close>). \<open>matchItems\<close> consumes the pieces from the left and returns the
  captured groups and the unread rest; no piece can match in two ways, so there is
  nothing to backtrack.
\<close>

datatype item = Lit string | Skip "char \<Rightarrow> bool" nat | Group "char \<Rightarrow> bool" nat

fun matchItems :: "item list \<Rightarrow> string \<Rightarrow> (string list \<times> string) option" where
  "matchItems [] s = Some ([], s)"
| "matchItems (Lit l # its) s =
     (if take (length l) s = l then matchItems its (drop (length l) s) else None)"
| "matchItems (Skip p n # its) s =
     (if n \<le> length s \<and> list_all p (take n s) then matchItems its (drop n s) else None)"
| "matchItems (Group p n # its) s =
     (if n \<le> length s \<and> list_all p (take n s)
      then (case matchItems its (drop n s) of
              None \<Rightarrow> None
            | Some (gs, r) \<Rightarrow> Some (take n s # gs, r))
      else None)"

text \<open>
  \<open>RegExp.prototype.exec\<close>: \<open>None\<close> is \<open>null\<close>; the match array \<open>m\<close> has the whole
  match at index 0 and group \<open>k\<close> at index \<open>k\<close>.
\<close>

definition regexExec :: "item list \<Rightarrow> string \<Rightarrow> string list option" where
  "regexExec re s =
     (case matchItems re s of
        None \<Rightarrow> None
      | Some (gs, r) \<Rightarrow> Some (take (length s - length r) s # gs))"

text \<open>\<^verbatim>\<open>/^B(\d{2})(\d{2})(\d{2})(\d{2})(\d{5})([NS])(\d{3})(\d{5})([EW])([AV])(\d{5})(\d{5})/\<close>\<close>

definition B_RECORD_RE :: "item list" where
  "B_RECORD_RE =
     [Lit ''B'', Group isDigit 2, Group isDigit 2, Group isDigit 2,
      Group isDigit 2, Group isDigit 5, Group (oneOf ''NS'') 1,
      Group isDigit 3, Group isDigit 5, Group (oneOf ''EW'') 1,
      Group (oneOf ''AV'') 1, Group isDigit 5, Group isDigit 5]"

text \<open>\<^verbatim>\<open>/^HFDTE(\d{2})(\d{2})(\d{2})/\<close>\<close>

definition HFDTE_RECORD_RE :: "item list" where
  "HFDTE_RECORD_RE = [Lit ''HFDTE'', Group isDigit 2, Group isDigit 2, Group isDigit 2]"

text \<open>
  \<^verbatim>\<open>/^H.([A-Z]{3}).*?:(.*)/\<close>. After the fixed head, the lazy \<open>.*?\<close> stops at the first
  colon, which only characters of class \<open>.\<close> may precede; the greedy \<open>(.*)\<close> takes
  every following character of class \<open>.\<close>.
\<close>

definition H_RECORD_RE_exec :: "string \<Rightarrow> string list option" where
  "H_RECORD_RE_exec s =
     (case matchItems [Lit ''H'', Skip isDot 1, Group isUpper 3] s of
        None \<Rightarrow> None
      | Some (gs, r) \<Rightarrow>
          (let pre = takeWhile (\<lambda>c. isDot c \<and> c \<noteq> CHR '':'') r in
           case drop (length pre) r of
             [] \<Rightarrow> None
           | c # v \<Rightarrow>
               if c = CHR '':''
               then (let val = takeWhile isDot v
                     in Some (take (5 + length pre + 1 + length val) s # gs @ [val]))
               else None))"

text \<open>\<^verbatim>\<open>/\r\n|\r|\n/\<close> and \<open>String.prototype.split\<close>: \<open>cur\<close> is the line being read.\<close>

fun splitNewline :: "string \<Rightarrow> string \<Rightarrow> string list" where
  "splitNewline cur [] = [cur]"
| "splitNewline cur (c # cs) =
     (if c = CHR 0x0D
      then (case cs of
              [] \<Rightarrow> cur # splitNewline [] cs
            | d # ds \<Rightarrow>
                if d = CHR 0x0A then cur # splitNewline [] ds
                else cur # splitNewline [] cs)
      else if c = CHR 0x0A then cur # splitNewline [] cs
      else splitNewline (cur @ [c]) cs)"

definition split_NEWLINE_RE :: "string \<Rightarrow> string list" where
  "split_NEWLINE_RE text = splitNewline [] text"

subsection \<open>Library functions of the language\<close>

text \<open>
  \<open>parseInt(s, 10)\<close> on a string that starts with a digit: the value of its longest
  prefix of decimal digits. Every string the source passes is a group of \<open>\d\<close>, so the
  sign, the leading white space and the \<open>NaN\<close> of an empty prefix never arise.
\<close>

definition digitValue :: "char \<Rightarrow> int" where
  "digitValue c = of_char c - 48"

definition parseInt :: "string \<Rightarrow> int" where
  "parseInt s = foldl (\<lambda>a c. 10 * a + digitValue c) 0 (takeWhile isDigit s)"

text \<open>\<open>String.prototype.trim\<close>, on code units below 256.\<close>

definition isWhiteSpace :: "char \<Rightarrow> bool" where
  "isWhiteSpace c =
     (c \<in> {CHR 0x09, CHR 0x0A, CHR 0x0B, CHR 0x0C, CHR 0x0D, CHR 0x20, CHR 0xA0})"

definition trim :: "string \<Rightarrow> string" where
  "trim s = rev (dropWhile isWhiteSpace (rev (dropWhile isWhiteSpace s)))"

text \<open>
  Arithmetic on doubles. \<open>fl64 x\<close> is the double nearest to \<open>x\<close>, ties to the even
  significand: with \<open>2 ^ e \<le> \<bar>x\<bar> < 2 ^ (e + 1)\<close> the doubles around \<open>x\<close> are the
  multiples of \<open>2 ^ (e - 52)\<close>. Overflow and subnormal numbers are left out: the
  values the decoder rounds are 0 or lie between \<open>1 / 60000\<close> and 1100. The
  operations \<open>a / b\<close> and \<open>a + b\<close> of the source are \<open>fl64 (a / b)\<close> and
  \<open>fl64 (a + b)\<close>; negation is exact.
\<close>

definition roundEven :: "rat \<Rightarrow> int" where
  "roundEven r =
     (let f = \<lfloor>r\<rfloor>; d = r - of_int f
      in if d < 1 / 2 then f else if 1 / 2 < d then f + 1 else if even f then f else f + 1)"

definition ilog2 :: "rat \<Rightarrow> int" where
  "ilog2 x = (if 1 \<le> x then bitlen \<lfloor>x\<rfloor> - 1 else - bitlen (\<lceil>1 / x\<rceil> - 1))"

definition fl64 :: "rat \<Rightarrow> rat" where
  "fl64 x =
     (if x = 0 then 0
      else (let u = power_int 2 (ilog2 \<bar>x\<bar> - 52)
            in of_int (roundEven (x / u)) * u))"

text \<open>\<open>Date.UTC(year, month, day, hour, minute, second)\<close>, in milliseconds.\<close>

definition DayFromYear :: "int \<Rightarrow> int" where
  "DayFromYear y =
     365 * (y - 1970) + (y - 1969) div 4 - (y - 1901) div 100 + (y - 1601) div 400"

definition InLeapYear :: "int \<Rightarrow> bool" where
  "InLeapYear y = (y mod 4 = 0 \<and> (y mod 100 \<noteq> 0 \<or> y mod 400 = 0))"

definition monthStart :: "int \<Rightarrow> bool \<Rightarrow> int" where
  "monthStart mn leap =
     [0, 31, 59, 90, 120, 151, 181, 212, 243, 273, 304, 334] ! nat mn
       + (if leap \<and> 2 \<le> mn then 1 else 0)"

definition MakeDay :: "int \<Rightarrow> int \<Rightarrow> int \<Rightarrow> int" where
  "MakeDay yr mo dt =
     (let ym = yr + mo div 12; mn = mo mod 12
      in DayFromYear ym + monthStart mn (InLeapYear ym) + dt - 1)"

definition MakeTime :: "int \<Rightarrow> int \<Rightarrow> int \<Rightarrow> int \<Rightarrow> int" where
  "MakeTime h mi s ms = h * 3600000 + mi * 60000 + s * 1000 + ms"

definition MakeDate :: "int \<Rightarrow> int \<Rightarrow> int" where
  "MakeDate dy tm = dy * 86400000 + tm"

definition Date_UTC :: "int \<Rightarrow> int \<Rightarrow> int \<Rightarrow> int \<Rightarrow> int \<Rightarrow> int \<Rightarrow> int" where
  "Date_UTC yr mo dt h mi s =
     (let y = (if 0 \<le> yr \<and> yr \<le> 99 then 1900 + yr else yr)
      in MakeDate (MakeDay y mo dt) (MakeTime h mi s 0))"

subsection \<open>The decoder\<close>

text \<open>\<open>IGCZ\<close>: the three recognised altitude modes are strings.\<close>

definition IGCZ_BAROMETRIC :: string where "IGCZ_BAROMETRIC = ''barometric''"
definition IGCZ_GPS :: string where "IGCZ_GPS = ''gps''"
definition IGCZ_NONE :: string where "IGCZ_NONE = ''none''"

text \<open>
  The constructor: \<open>options.altitudeMode ? options.altitudeMode : IGCZ.NONE\<close>. The
  option is absent (\<open>None\<close>) or a string; the empty string is falsy.
\<close>

definition IGC_new :: "string option \<Rightarrow> string" where
  "IGC_new altitudeMode =
     (case altitudeMode of
        None \<Rightarrow> IGCZ_NONE
      | Some a \<Rightarrow> if a = [] then IGCZ_NONE else a)"

text \<open>
  Modelled from the spec: \<open>GeometryLayout\<close>, \<open>LineString\<close> and \<open>Feature\<close> are
  imported from other files of the repository. A line string is a flat buffer of
  coordinates with a layout, XYM for points of 3 components and XYZM for points of 4; a
  feature is a geometry with a property mapping.
\<close>

datatype GeometryLayout = XYM | XYZM

datatype lineString = LineString (flat: "rat list") (layout: GeometryLayout)

record feature =
  geometry :: lineString
  featureProperties :: "string \<rightharpoonup> string"

text \<open>The local variables of \<open>readFeatureFromText\<close> that the loop updates.\<close>

record locals =
  properties :: "string \<rightharpoonup> string"
  flatCoordinates :: "rat list"
  year :: int
  month :: int
  day :: int
  lastDateTime :: int

definition initLocals :: locals where
  "initLocals =
     \<lparr>properties = Map.empty, flatCoordinates = [], year = 2000, month = 0, day = 1,
      lastDateTime = - 1\<rparr>"

text \<open>The branch of the loop body for a line that \<open>B_RECORD_RE\<close> matched as \<open>m\<close>.\<close>

definition fixBranch :: "string \<Rightarrow> string list \<Rightarrow> locals \<Rightarrow> locals" where
  "fixBranch altitudeMode m st =
     (let hour = parseInt (m ! 1);
          minute = parseInt (m ! 2);
          second = parseInt (m ! 3);
          y0 = fl64 (of_int (parseInt (m ! 4)) + fl64 (of_int (parseInt (m ! 5)) / 60000));
          y = (if m ! 6 = ''S'' then - y0 else y0);
          x0 = fl64 (of_int (parseInt (m ! 7)) + fl64 (of_int (parseInt (m ! 8)) / 60000));
          x = (if m ! 9 = ''W'' then - x0 else x0);
          fc1 = flatCoordinates st @ [x, y];
          fc2 = (if altitudeMode \<noteq> IGCZ_NONE
                 then fc1 @ [if altitudeMode = IGCZ_GPS then of_int (parseInt (m ! 11))
                             else if altitudeMode = IGCZ_BAROMETRIC
                             then of_int (parseInt (m ! 12))
                             else 0]
                 else fc1);
          dateTime0 = Date_UTC (year st) (month st) (day st) hour minute second;
          dateTime = (if dateTime0 < lastDateTime st
                      then Date_UTC (year st) (month st) (day st + 1) hour minute second
                      else dateTime0)
      in st\<lparr>flatCoordinates := fc2 @ [of_int dateTime / 1000], lastDateTime := dateTime\<rparr>)"

text \<open>
  One iteration of the \<open>for\<close> loop. \<open>line.charAt(0)\<close> is the empty string on an
  empty line, as \<open>take 1\<close> is.
\<close>

definition processLine :: "string \<Rightarrow> locals \<Rightarrow> string \<Rightarrow> locals" where
  "processLine altitudeMode st line =
     (if take 1 line = ''B''
      then (case regexExec B_RECORD_RE line of
              None \<Rightarrow> st
            | Some m \<Rightarrow> fixBranch altitudeMode m st)
      else if take 1 line = ''H''
      then (case regexExec HFDTE_RECORD_RE line of
              Some m \<Rightarrow>
                st\<lparr>day := parseInt (m ! 1), month := parseInt (m ! 2) - 1,
                   year := 2000 + parseInt (m ! 3)\<rparr>
            | None \<Rightarrow>
                (case H_RECORD_RE_exec line of
                   None \<Rightarrow> st
                 | Some m \<Rightarrow> st\<lparr>properties := (properties st)(m ! 1 \<mapsto> trim (m ! 2))\<rparr>))
      else st)"

fun readLines :: "string \<Rightarrow> locals \<Rightarrow> string list \<Rightarrow> locals" where
  "readLines altitudeMode st [] = st"
| "readLines altitudeMode st (line # lines) =
     readLines altitudeMode (processLine altitudeMode st line) lines"

text \<open>\<open>readFeatureFromText\<close>: \<open>None\<close> is \<open>null\<close>.\<close>

definition readFeatureFromText ::
  "(lineString \<Rightarrow> lineString) \<Rightarrow> string \<Rightarrow> string \<Rightarrow> feature option" where
  "readFeatureFromText tr altitudeMode text =
     (let st = readLines altitudeMode initLocals (split_NEWLINE_RE text)
      in if length (flatCoordinates st) = 0 then None
         else (let lay = (if altitudeMode = IGCZ_NONE then XYM else XYZM);
                   lineString = LineString (flatCoordinates st) lay
               in Some \<lparr>geometry = tr lineString, featureProperties = properties st\<rparr>))"

definition readFeaturesFromText ::
  "(lineString \<Rightarrow> lineString) \<Rightarrow> string \<Rightarrow> string \<Rightarrow> feature list" where
  "readFeaturesFromText tr altitudeMode text =
     (case readFeatureFromText tr altitudeMode text of
        Some feature \<Rightarrow> [feature]
      | None \<Rightarrow> [])"

text \<open>
  The four stub methods have an empty body: called, they complete normally and return
  \<open>undefined\<close>. A method call either returns a value (\<open>None\<close> is \<open>undefined\<close>)
  or throws.
\<close>

datatype 'a completion = Return 'a | Throw string

definition writeFeatureText :: "feature \<Rightarrow> 'o \<Rightarrow> string option completion" where
  "writeFeatureText feature opt_options = Return None"

definition writeFeaturesText :: "feature list \<Rightarrow> 'o \<Rightarrow> string option completion" where
  "writeFeaturesText features opt_options = Return None"

definition writeGeometryText :: "lineString \<Rightarrow> 'o \<Rightarrow> string option completion" where
  "writeGeometryText geom opt_options = Return None"

definition readGeometryFromText :: "string \<Rightarrow> 'o \<Rightarrow> lineString option completion" where
  "readGeometryFromText text opt_options = Return None"

subsection \<open>The vocabulary of the specification\<close>

text \<open>
  Modelled from the spec: how the geometry object model reads a line string is not part
  of the decoder. A track is an ordered sequence of points of equal dimensionality, 3
  for the layout XYM and 4 for XYZM, stored flat; the time component of a point is its
  last component.
\<close>

fun stride :: "GeometryLayout \<Rightarrow> nat" where
  "stride XYM = 3"
| "stride XYZM = 4"

definition inflate :: "nat \<Rightarrow> rat list \<Rightarrow> rat list list" where
  "inflate n xs = map (\<lambda>k. take n (drop (n * k) xs)) [0..<(length xs + n - 1) div n]"

definition points :: "lineString \<Rightarrow> rat list list" where
  "points g = inflate (stride (layout g)) (flat g)"

definition times :: "lineString \<Rightarrow> rat list" where
  "times g = map last (points g)"

text \<open>
  The fixed-width layout of a fix line, by position:
  \<open>B hhmmss DDmmmmm[NS] DDDmmmmm[EW] [AV] aaaaa bbbbb\<close>, 35 characters, anything
  after them allowed.
\<close>

definition fixLayout :: "string \<Rightarrow> bool" where
  "fixLayout line =
     (35 \<le> length line \<and> line ! 0 = CHR ''B''
      \<and> list_all isDigit (take 13 (drop 1 line))
      \<and> line ! 14 \<in> {CHR ''N'', CHR ''S''}
      \<and> list_all isDigit (take 8 (drop 15 line))
      \<and> line ! 23 \<in> {CHR ''E'', CHR ''W''}
      \<and> line ! 24 \<in> {CHR ''A'', CHR ''V''}
      \<and> list_all isDigit (take 10 (drop 25 line)))"

text \<open>The same layout on a line of exactly 35 characters.\<close>

definition fixLayoutExact :: "string \<Rightarrow> bool" where
  "fixLayoutExact line = (length line = 35 \<and> fixLayout line)"

text \<open>The match array of \<open>B_RECORD_RE\<close> on a line of that layout.\<close>

definition fixGroups :: "string \<Rightarrow> string list" where
  "fixGroups line =
     [take 35 line, take 2 (drop 1 line), take 2 (drop 3 line), take 2 (drop 5 line),
      take 2 (drop 7 line), take 5 (drop 9 line), take 1 (drop 14 line),
      take 3 (drop 15 line), take 5 (drop 18 line), take 1 (drop 23 line),
      take 1 (drop 24 line), take 5 (drop 25 line), take 5 (drop 30 line)]"

text \<open>The layout \<open>HFDTE DD MM YY\<close> of a date header and its match array.\<close>

definition dateLayout :: "string \<Rightarrow> bool" where
  "dateLayout line =
     (11 \<le> length line \<and> take 5 line = ''HFDTE'' \<and> list_all isDigit (take 6 (drop 5 line)))"

definition dateGroups :: "string \<Rightarrow> string list" where
  "dateGroups line = [take 11 line, take 2 (drop 5 line), take 2 (drop 7 line), take 2 (drop 9 line)]"

text \<open>The longitude and the latitude of a fix line, from its fields by position.\<close>

definition fixLongitude :: "string \<Rightarrow> rat" where
  "fixLongitude line =
     (let x0 = fl64 (of_int (parseInt (take 3 (drop 15 line)))
                      + fl64 (of_int (parseInt (take 5 (drop 18 line))) / 60000))
      in if line ! 23 = CHR ''W'' then - x0 else x0)"

definition fixLatitude :: "string \<Rightarrow> rat" where
  "fixLatitude line =
     (let y0 = fl64 (of_int (parseInt (take 2 (drop 7 line)))
                      + fl64 (of_int (parseInt (take 5 (drop 9 line))) / 60000))
      in if line ! 14 = CHR ''S'' then - y0 else y0)"

text \<open>
  Two lines that are the same, or that both decode as a fix and differ at most in the
  validity letter, the character at index 24.
\<close>

definition sameButValidity :: "string \<Rightarrow> string \<Rightarrow> bool" where
  "sameButValidity a b =
     (a = b \<or> (regexExec B_RECORD_RE a \<noteq> None \<and> regexExec B_RECORD_RE b \<noteq> None
               \<and> b = a[24 := b ! 24]))"

text \<open>
  The candidate timestamps (ms) of the fixes of a document: for each line that decodes
  as a fix, \<open>Date.UTC\<close> of the date context in force (that of the last date header
  before the line) and the hour, minute and second of the fix.
\<close>

fun candidates :: "int \<Rightarrow> int \<Rightarrow> int \<Rightarrow> string list \<Rightarrow> int list" where
  "candidates y mo d [] = []"
| "candidates y mo d (line # lines) =
     (case regexExec B_RECORD_RE line of
        Some m \<Rightarrow>
          Date_UTC y mo d (parseInt (m ! 1)) (parseInt (m ! 2)) (parseInt (m ! 3))
            # candidates y mo d lines
      | None \<Rightarrow>
          (case regexExec HFDTE_RECORD_RE line of
             Some m \<Rightarrow>
               candidates (2000 + parseInt (m ! 3)) (parseInt (m ! 2) - 1) (parseInt (m ! 1))
                 lines
           | None \<Rightarrow> candidates y mo d lines))"

text \<open>The backward steps of a sequence: by how much an element is below the one before.\<close>

fun backSteps :: "int list \<Rightarrow> int list" where
  "backSteps (a # b # xs) = (if b < a then [a - b] else []) @ backSteps (b # xs)"
| "backSteps xs = []"

subsection \<open>Auxiliary functions of the proofs\<close>

text \<open>\<open>matchItems\<close> in three parts: whether it matches, its groups, the unread rest.\<close>

fun itemsOk :: "item list \<Rightarrow> string \<Rightarrow> bool" where
  "itemsOk [] s = True"
| "itemsOk (Lit l # its) s = (take (length l) s = l \<and> itemsOk its (drop (length l) s))"
| "itemsOk (Skip p n # its) s =
     (n \<le> length s \<and> list_all p (take n s) \<and> itemsOk its (drop n s))"
| "itemsOk (Group p n # its) s =
     (n \<le> length s \<and> list_all p (take n s) \<and> itemsOk its (drop n s))"

fun itemsGroups :: "item list \<Rightarrow> string \<Rightarrow> string list" where
  "itemsGroups [] s = []"
| "itemsGroups (Lit l # its) s = itemsGroups its (drop (length l) s)"
| "itemsGroups (Skip p n # its) s = itemsGroups its (drop n s)"
| "itemsGroups (Group p n # its) s = take n s # itemsGroups its (drop n s)"

fun itemsRest :: "item list \<Rightarrow> string \<Rightarrow> string" where
  "itemsRest [] s = s"
| "itemsRest (Lit l # its) s = itemsRest its (drop (length l) s)"
| "itemsRest (Skip p n # its) s = itemsRest its (drop n s)"
| "itemsRest (Group p n # its) s = itemsRest its (drop n s)"

text \<open>The points that the loop appends to the buffer, one for each line it decodes.\<close>

fun pointsRead :: "string \<Rightarrow> locals \<Rightarrow> string list \<Rightarrow> rat list list" where
  "pointsRead altitudeMode st [] = []"
| "pointsRead altitudeMode st (line # lines) =
     (let st' = processLine altitudeMode st line;
          new = drop (length (flatCoordinates st)) (flatCoordinates st')
      in (if new = [] then [] else [new]) @ pointsRead altitudeMode st' lines)"

text \<open>The timestamps (ms) that the loop gives to the candidates \<open>cs\<close> after \<open>lst\<close>.\<close>

fun stamps :: "int \<Rightarrow> int list \<Rightarrow> int list" where
  "stamps lst [] = []"
| "stamps lst (c # cs) =
     (let t = (if c < lst then c + 86400000 else c)
      in t # stamps t cs)"

section \<open>Lemmas\<close>

subsection \<open>Rounding to doubles\<close>

text \<open>
  Rounding keeps a bound that is a double itself: a non-negative number rounds to a
  non-negative double, and a number below a double \<open>b\<close> rounds to at most \<open>b\<close>.
\<close>

lemma ilog2_bounds:
  assumes "0 < x"
  shows "power_int 2 (ilog2 x) \<le> x \<and> x < power_int 2 (ilog2 x + 1)"
proof (cases "1 \<le> x")
  case True
  define n where "n = \<lfloor>x\<rfloor>"
  from True have n: "0 < n" by (simp add: n_def)
  from bitlen_bounds [OF n]
  have lo: "2 ^ nat (bitlen n - 1) \<le> n" and hi: "n < 2 ^ nat (bitlen n)" by simp_all
  from n have b: "1 \<le> bitlen n" by (simp add: bitlen_alt_def)
  have e: "ilog2 x = bitlen n - 1" using True by (simp add: ilog2_def n_def)
  have "(of_int (2 ^ nat (bitlen n - 1)) :: rat) \<le> of_int n" using lo by (simp only: of_int_le_iff)
  also have "\<dots> \<le> x" unfolding n_def by linarith
  finally have "(2 ^ nat (bitlen n - 1) :: rat) \<le> x" by simp
  then have l: "power_int 2 (ilog2 x) \<le> x" using b by (simp add: e power_int_def)
  from hi have "n + 1 \<le> 2 ^ nat (bitlen n)" by simp
  then have "(of_int (n + 1) :: rat) \<le> of_int (2 ^ nat (bitlen n))" by (simp only: of_int_le_iff)
  then have "(of_int (n + 1) :: rat) \<le> 2 ^ nat (bitlen n)" by simp
  moreover have "x < of_int (n + 1)" unfolding n_def by linarith
  ultimately have "x < 2 ^ nat (bitlen n)" by (rule less_le_trans [rotated])
  then have "x < power_int 2 (ilog2 x + 1)" using b by (simp add: e power_int_def)
  with l show ?thesis by simp
next
  case False
  define m where "m = \<lceil>1 / x\<rceil>"
  define j where "j = m - 1"
  from False assms have "1 < 1 / x" by simp
  then have "1 < m" unfolding m_def by (simp add: less_ceiling_iff)
  then have j: "0 < j" by (simp add: j_def)
  from bitlen_bounds [OF j]
  have lo: "2 ^ nat (bitlen j - 1) \<le> j" and hi: "j < 2 ^ nat (bitlen j)" by simp_all
  from j have b: "1 \<le> bitlen j" by (simp add: bitlen_alt_def)
  have e: "ilog2 x = - bitlen j" using False by (simp add: ilog2_def j_def m_def)
  from hi have "m \<le> 2 ^ nat (bitlen j)" by (simp add: j_def)
  then have "(of_int m :: rat) \<le> of_int (2 ^ nat (bitlen j))" by (simp only: of_int_le_iff)
  then have "(of_int m :: rat) \<le> 2 ^ nat (bitlen j)" by simp
  moreover have "1 / x \<le> of_int m" unfolding m_def by linarith
  ultimately have "1 / x \<le> 2 ^ nat (bitlen j)" by (rule order_trans [rotated])
  with assms have "1 \<le> 2 ^ nat (bitlen j) * x" by (simp add: field_simps)
  then have "1 / 2 ^ nat (bitlen j) \<le> x" by (simp add: field_simps)
  then have l: "power_int 2 (ilog2 x) \<le> x"
    using b by (simp add: e power_int_def power_one_over)
  have "(of_int (2 ^ nat (bitlen j - 1)) :: rat) \<le> of_int j" using lo by (simp only: of_int_le_iff)
  then have "(2 ^ nat (bitlen j - 1) :: rat) \<le> of_int j" by simp
  moreover have "of_int j < 1 / x" unfolding j_def m_def by linarith
  ultimately have "2 ^ nat (bitlen j - 1) < 1 / x" by (rule le_less_trans)
  with assms have "2 ^ nat (bitlen j - 1) * x < 1" by (simp add: field_simps)
  then have u: "x < 1 / 2 ^ nat (bitlen j - 1)" by (simp add: field_simps)
  have "power_int (2::rat) (ilog2 x + 1) = 1 / 2 ^ nat (bitlen j - 1)"
  proof (cases "bitlen j = 1")
    case True
    then show ?thesis by (simp add: e)
  next
    case False
    with b have "1 < bitlen j" by simp
    then have "nat (- (1 - bitlen j)) = nat (bitlen j - 1)" "\<not> 0 \<le> 1 - bitlen j" by simp_all
    then show ?thesis
      by (simp add: e power_int_def power_one_over)
  qed
  with u l show ?thesis by simp
qed

lemma ilog2_mono:
  assumes "0 < x" and "x \<le> b"
  shows "ilog2 x \<le> ilog2 b"
proof (rule ccontr)
  assume "\<not> ilog2 x \<le> ilog2 b"
  then have "ilog2 b + 1 \<le> ilog2 x" by simp
  then have "power_int (2::rat) (ilog2 b + 1) \<le> power_int 2 (ilog2 x)"
    by (rule power_int_increasing) simp
  also have "\<dots> \<le> x" using ilog2_bounds [OF assms(1)] by simp
  also have "\<dots> \<le> b" by (rule assms(2))
  finally have "power_int (2::rat) (ilog2 b + 1) \<le> b" .
  moreover from assms have "0 < b" by simp
  then have "b < power_int 2 (ilog2 b + 1)" using ilog2_bounds [of b] by simp
  ultimately show False by simp
qed

lemma roundEven_nonneg: "0 \<le> r \<Longrightarrow> 0 \<le> roundEven r"
proof -
  assume "0 \<le> r"
  then have "0 \<le> \<lfloor>r\<rfloor>" by simp
  then show ?thesis by (simp add: roundEven_def Let_def)
qed

lemma roundEven_le:
  assumes "r \<le> of_int k"
  shows "roundEven r \<le> k"
proof (cases "r = of_int \<lfloor>r\<rfloor>")
  case True
  then have "roundEven r = \<lfloor>r\<rfloor>" by (simp add: roundEven_def Let_def)
  moreover from assms have "\<lfloor>r\<rfloor> \<le> k" by (simp add: floor_le_iff)
  ultimately show ?thesis by simp
next
  case False
  have "of_int \<lfloor>r\<rfloor> \<le> r" by (rule of_int_floor_le)
  moreover from False have "of_int \<lfloor>r\<rfloor> \<noteq> r" by (rule not_sym)
  ultimately have "of_int \<lfloor>r\<rfloor> < r" by (rule le_neq_trans)
  with assms have "(of_int \<lfloor>r\<rfloor> :: rat) < of_int k" by simp
  then have "\<lfloor>r\<rfloor> < k" by (simp only: of_int_less_iff)
  then have "\<lfloor>r\<rfloor> + 1 \<le> k" by simp
  moreover have "roundEven r \<le> \<lfloor>r\<rfloor> + 1" by (simp add: roundEven_def Let_def)
  ultimately show ?thesis by simp
qed

lemma fl64_nonneg:
  assumes "0 \<le> x"
  shows "0 \<le> fl64 x"
proof (cases "x = 0")
  case True
  then show ?thesis by (simp add: fl64_def)
next
  case False
  define u :: rat where "u = power_int 2 (ilog2 \<bar>x\<bar> - 52)"
  have u: "0 < u" unfolding u_def by (rule zero_less_power_int) simp
  with assms have "0 \<le> x / u" by simp
  then have "0 \<le> roundEven (x / u)" by (rule roundEven_nonneg)
  with u have "0 \<le> of_int (roundEven (x / u)) * u" by simp
  with False show ?thesis by (simp add: fl64_def u_def Let_def)
qed

lemma fl64_le:
  assumes "0 \<le> x" and "x \<le> b" and "fl64 b = b"
  shows "fl64 x \<le> b"
proof (cases "x = 0")
  case True
  with assms show ?thesis by (simp add: fl64_def)
next
  case False
  with assms have x: "0 < x" and b: "0 < b" by simp_all
  define ex where "ex = ilog2 x"
  define eb where "eb = ilog2 b"
  define u :: rat where "u = power_int 2 (ex - 52)"
  define kb where "kb = roundEven (b / power_int 2 (eb - 52))"
  have le: "ex \<le> eb" unfolding ex_def eb_def using x assms(2) by (rule ilog2_mono)
  have u: "0 < u" unfolding u_def by (rule zero_less_power_int) simp
  have fx: "fl64 x = of_int (roundEven (x / u)) * u"
    using x by (simp add: fl64_def u_def ex_def Let_def)
  from b assms(3) have "b = of_int kb * power_int 2 (eb - 52)"
    by (simp add: fl64_def kb_def eb_def Let_def)
  also have "power_int (2::rat) (eb - 52) = power_int 2 ((ex - 52) + (eb - ex))" by simp
  also have "\<dots> = u * power_int 2 (eb - ex)"
    unfolding u_def by (rule power_int_add) simp
  also have "power_int (2::rat) (eb - ex) = of_int (2 ^ nat (eb - ex))"
    using le by (simp add: power_int_def)
  finally have bk: "b = of_int (kb * 2 ^ nat (eb - ex)) * u" by simp
  from assms(2) u have "x / u \<le> b / u" by (simp add: divide_right_mono)
  also have "b / u = of_int (kb * 2 ^ nat (eb - ex))" using u by (subst bk) simp
  finally have "roundEven (x / u) \<le> kb * 2 ^ nat (eb - ex)" by (rule roundEven_le)
  then have "(of_int (roundEven (x / u)) :: rat) \<le> of_int (kb * 2 ^ nat (eb - ex))"
    by (simp only: of_int_le_iff)
  with u have "of_int (roundEven (x / u)) * u \<le> of_int (kb * 2 ^ nat (eb - ex)) * u"
    by (simp only: mult_le_cancel_right_pos)
  then show ?thesis by (simp only: fx bk [symmetric])
qed

lemma fl64_exact:
  "fl64 0 = 0" "fl64 1 = 1" "fl64 2 = 2" "fl64 90 = 90" "fl64 101 = 101" "fl64 180 = 180"
  "fl64 1001 = 1001"
  by code_simp+

text \<open>Two values checked against the doubles that the source computes.\<close>

lemma fl64_example:
  "fl64 (12345 / 60000) = 1853231246662959 / 9007199254740992"
  "fl64 (50 + fl64 (12345 / 60000)) = 7065831155995509 / 140737488355328"
  by code_simp+

subsection \<open>The regular expressions by position\<close>

lemma matchItems_eq:
  "matchItems its s =
     (if itemsOk its s then Some (itemsGroups its s, itemsRest its s) else None)"
  by (induction its s rule: matchItems.induct) auto

lemma take1_drop: "n < length xs \<Longrightarrow> take (Suc 0) (drop n xs) = [xs ! n]"
  by (simp add: take_Suc_conv_app_nth)

lemma list_all_take_add:
  "list_all p (take (a + b) xs) = (list_all p (take a xs) \<and> list_all p (take b (drop a xs)))"
  by (simp add: take_add)

lemma take1_eq: "(take (Suc 0) s = [c]) = (s \<noteq> [] \<and> s ! 0 = c)"
  by (cases s) auto

lemma B_ok_unfold:
  "itemsOk B_RECORD_RE line =
     (take (Suc 0) line = ''B''
      \<and> 2 \<le> length line - Suc 0 \<and> list_all isDigit (take 2 (drop (Suc 0) line))
      \<and> 2 \<le> length line - 3 \<and> list_all isDigit (take 2 (drop 3 line))
      \<and> 2 \<le> length line - 5 \<and> list_all isDigit (take 2 (drop 5 line))
      \<and> 2 \<le> length line - 7 \<and> list_all isDigit (take 2 (drop 7 line))
      \<and> 5 \<le> length line - 9 \<and> list_all isDigit (take 5 (drop 9 line))
      \<and> Suc 0 \<le> length line - 14 \<and> list_all (oneOf ''NS'') (take (Suc 0) (drop 14 line))
      \<and> 3 \<le> length line - 15 \<and> list_all isDigit (take 3 (drop 15 line))
      \<and> 5 \<le> length line - 18 \<and> list_all isDigit (take 5 (drop 18 line))
      \<and> Suc 0 \<le> length line - 23 \<and> list_all (oneOf ''EW'') (take (Suc 0) (drop 23 line))
      \<and> Suc 0 \<le> length line - 24 \<and> list_all (oneOf ''AV'') (take (Suc 0) (drop 24 line))
      \<and> 5 \<le> length line - 25 \<and> list_all isDigit (take 5 (drop 25 line))
      \<and> 5 \<le> length line - 30 \<and> list_all isDigit (take 5 (drop 30 line)))"
  by (simp add: B_RECORD_RE_def)

lemma B_ok_length:
  assumes "itemsOk B_RECORD_RE line"
  shows "35 \<le> length line"
proof -
  from assms have "5 \<le> length line - 30"
    unfolding B_ok_unfold by (elim conjE)
  then show ?thesis by simp
qed

lemma digits13:
  "list_all isDigit (take 13 (drop 1 line)) =
     (list_all isDigit (take 2 (drop (Suc 0) line)) \<and> list_all isDigit (take 2 (drop 3 line))
      \<and> list_all isDigit (take 2 (drop 5 line)) \<and> list_all isDigit (take 2 (drop 7 line))
      \<and> list_all isDigit (take 5 (drop 9 line)))"
  using list_all_take_add [of isDigit 2 11 "drop 1 line"]
    list_all_take_add [of isDigit 2 9 "drop 3 line"]
    list_all_take_add [of isDigit 2 7 "drop 5 line"]
    list_all_take_add [of isDigit 2 5 "drop 7 line"]
  by simp

lemma digits8:
  "list_all isDigit (take 8 (drop 15 line)) =
     (list_all isDigit (take 3 (drop 15 line)) \<and> list_all isDigit (take 5 (drop 18 line)))"
  using list_all_take_add [of isDigit 3 5 "drop 15 line"] by simp

lemma digits10:
  "list_all isDigit (take 10 (drop 25 line)) =
     (list_all isDigit (take 5 (drop 25 line)) \<and> list_all isDigit (take 5 (drop 30 line)))"
  using list_all_take_add [of isDigit 5 5 "drop 25 line"] by simp

lemma B_ok: "itemsOk B_RECORD_RE line = fixLayout line"
proof (cases "35 \<le> length line")
  case False
  then show ?thesis
    using B_ok_length [of line] by (auto simp add: fixLayout_def)
next
  case True
  then have len: "2 \<le> length line - Suc 0" "2 \<le> length line - 3"
      "2 \<le> length line - 5" "2 \<le> length line - 7" "5 \<le> length line - 9"
      "Suc 0 \<le> length line - 14" "3 \<le> length line - 15" "5 \<le> length line - 18"
      "Suc 0 \<le> length line - 23" "Suc 0 \<le> length line - 24" "5 \<le> length line - 25"
      "5 \<le> length line - 30"
    by simp_all
  from True have ne: "line \<noteq> []" by auto
  from True have c: "take (Suc 0) (drop 14 line) = [line ! 14]"
      "take (Suc 0) (drop 23 line) = [line ! 23]" "take (Suc 0) (drop 24 line) = [line ! 24]"
    by (simp_all add: take1_drop)
  show ?thesis
    unfolding B_ok_unfold fixLayout_def digits13 digits8 digits10 c
    using True by (simp only: len ne take1_eq list.pred_inject oneOf_def simp_thms)
       (simp add: insert_commute)
qed

lemma B_groups: "itemsGroups B_RECORD_RE line = tl (fixGroups line)"
  by (simp add: B_RECORD_RE_def fixGroups_def)

lemma B_rest: "itemsRest B_RECORD_RE line = drop 35 line"
  by (simp add: B_RECORD_RE_def)

lemma B_exec:
  "regexExec B_RECORD_RE line = (if fixLayout line then Some (fixGroups line) else None)"
  by (simp add: regexExec_def matchItems_eq B_ok B_groups B_rest)
     (simp add: fixGroups_def fixLayout_def)

lemma fixLayout_B: "fixLayout line \<Longrightarrow> take (Suc 0) line = ''B''"
  by (cases line) (auto simp add: fixLayout_def)

lemma D_exec:
  "regexExec HFDTE_RECORD_RE line = (if dateLayout line then Some (dateGroups line) else None)"
proof -
  have d6: "list_all isDigit (take 6 (drop 5 line)) =
     (list_all isDigit (take 2 (drop 5 line)) \<and> list_all isDigit (take 2 (drop 7 line))
      \<and> list_all isDigit (take 2 (drop 9 line)))"
    using list_all_take_add [of isDigit 2 4 "drop 5 line"]
      list_all_take_add [of isDigit 2 2 "drop 7 line"]
    by simp
  have five: "Suc (Suc (Suc (Suc (Suc 0)))) = 5" by simp
  have ok: "itemsOk HFDTE_RECORD_RE line = dateLayout line"
    unfolding dateLayout_def d6 by (auto simp add: HFDTE_RECORD_RE_def five)
  have gs: "itemsGroups HFDTE_RECORD_RE line = tl (dateGroups line)"
    by (simp add: HFDTE_RECORD_RE_def dateGroups_def five)
  have r: "itemsRest HFDTE_RECORD_RE line = drop 11 line"
    by (simp add: HFDTE_RECORD_RE_def five)
  show ?thesis
    by (simp add: regexExec_def matchItems_eq ok gs r) (simp add: dateGroups_def dateLayout_def)
qed

lemma dateLayout_H: "dateLayout line \<Longrightarrow> take (Suc 0) line = ''H''"
proof -
  assume "dateLayout line"
  then have "take 5 line = ''HFDTE''" by (simp add: dateLayout_def)
  then have "take (Suc 0) (take 5 line) = ''H''" by simp
  then show ?thesis by simp
qed

subsection \<open>One iteration of the loop\<close>

lemma processLine_fix:
  "fixLayout line \<Longrightarrow> processLine mode st line = fixBranch mode (fixGroups line) st"
  by (simp add: processLine_def B_exec fixLayout_B)

lemma processLine_date:
  "dateLayout line \<Longrightarrow> processLine mode st line =
     st\<lparr>day := parseInt (take 2 (drop 5 line)), month := parseInt (take 2 (drop 7 line)) - 1,
        year := 2000 + parseInt (take 2 (drop 9 line))\<rparr>"
  by (simp add: processLine_def D_exec dateLayout_H) (simp add: dateGroups_def)

lemma processLine_other:
  "\<not> fixLayout line \<Longrightarrow> \<not> dateLayout line \<Longrightarrow>
     \<exists>p. processLine mode st line = st\<lparr>properties := p\<rparr>"
proof -
  assume a: "\<not> fixLayout line" "\<not> dateLayout line"
  have "processLine mode st line = st \<or>
        processLine mode st line
          = st\<lparr>properties := (properties st)(the (H_RECORD_RE_exec line) ! 1 \<mapsto>
                                 trim (the (H_RECORD_RE_exec line) ! 2))\<rparr>"
    using a by (auto simp add: processLine_def B_exec D_exec split: option.splits)
  moreover have "st = st\<lparr>properties := properties st\<rparr>" by simp
  ultimately show ?thesis by metis
qed

lemma processLine_B_nofix:
  "take 1 line = ''B'' \<Longrightarrow> \<not> fixLayout line \<Longrightarrow> processLine mode st line = st"
  by (simp add: processLine_def B_exec)

lemma fixBranch_length:
  "length (flatCoordinates (fixBranch mode m st))
     = length (flatCoordinates st) + (if mode = IGCZ_NONE then 3 else 4)"
  by (simp add: fixBranch_def Let_def)

lemma readLines_append:
  "readLines mode st (xs @ ys) = readLines mode (readLines mode st xs) ys"
  by (induction xs arbitrary: st) simp_all

lemma readLines_length:
  "length (flatCoordinates (readLines mode st ls))
     = length (flatCoordinates st)
       + (if mode = IGCZ_NONE then 3 else 4) * length (filter fixLayout ls)"
proof (induction ls arbitrary: st)
  case Nil
  show ?case by simp
next
  case (Cons l ls)
  show ?case
  proof (cases "fixLayout l")
    case True
    then show ?thesis
      by (simp add: Cons.IH processLine_fix fixBranch_length)
  next
    case False
    have "flatCoordinates (processLine mode st l) = flatCoordinates st"
    proof (cases "dateLayout l")
      case True
      then show ?thesis by (simp add: processLine_date)
    next
      case nd: False
      from processLine_other [OF False nd, of mode st]
      obtain p where "processLine mode st l = st\<lparr>properties := p\<rparr>" by blast
      then show ?thesis by simp
    qed
    with False show ?thesis by (simp add: Cons.IH)
  qed
qed

lemma fixBranch_date:
  "year (fixBranch mode m st) = year st \<and> month (fixBranch mode m st) = month st
   \<and> day (fixBranch mode m st) = day st \<and> properties (fixBranch mode m st) = properties st"
  by (simp add: fixBranch_def Let_def)

lemma processLine_keeps_date:
  assumes "\<not> dateLayout l"
  shows "year (processLine mode st l) = year st \<and> month (processLine mode st l) = month st
   \<and> day (processLine mode st l) = day st"
proof (cases "fixLayout l")
  case True
  then show ?thesis by (simp add: processLine_fix fixBranch_date)
next
  case False
  from processLine_other [OF False assms, of mode st]
  obtain p where "processLine mode st l = st\<lparr>properties := p\<rparr>" by blast
  then show ?thesis by simp
qed

lemma readLines_keeps_date:
  "\<forall>l \<in> set ls. \<not> dateLayout l \<Longrightarrow>
     year (readLines mode st ls) = year st \<and> month (readLines mode st ls) = month st
     \<and> day (readLines mode st ls) = day st"
  by (induction ls arbitrary: st) (simp_all add: processLine_keeps_date)

lemma fixBranch_lastDateTime:
  "lastDateTime (fixBranch mode m st) =
     (let t0 = Date_UTC (year st) (month st) (day st)
                 (parseInt (m ! 1)) (parseInt (m ! 2)) (parseInt (m ! 3))
      in if t0 < lastDateTime st
         then Date_UTC (year st) (month st) (day st + 1)
                (parseInt (m ! 1)) (parseInt (m ! 2)) (parseInt (m ! 3))
         else t0)"
  by (simp add: fixBranch_def Let_def)

subsection \<open>Decimal fields\<close>

lemma digitValue_range: "isDigit c \<Longrightarrow> 0 \<le> digitValue c \<and> digitValue c \<le> 9"
  by (auto simp add: isDigit_def digitValue_def)

lemma foldl_digits_range:
  "list_all isDigit s \<Longrightarrow> 0 \<le> a \<Longrightarrow>
     0 \<le> foldl (\<lambda>a c. 10 * a + digitValue c) a s
     \<and> foldl (\<lambda>a c. 10 * a + digitValue c) a s < (a + 1) * 10 ^ length s"
proof (induction s arbitrary: a)
  case Nil
  then show ?case by simp
next
  case (Cons c s)
  from Cons.prems have d: "0 \<le> digitValue c" "digitValue c \<le> 9"
    by (simp_all add: digitValue_range)
  with Cons.prems have nn: "0 \<le> 10 * a + digitValue c" by simp
  from Cons.prems have "list_all isDigit s" by simp
  from Cons.IH [OF this nn]
  have ih: "0 \<le> foldl (\<lambda>a c. 10 * a + digitValue c) (10 * a + digitValue c) s"
    "foldl (\<lambda>a c. 10 * a + digitValue c) (10 * a + digitValue c) s
       < (10 * a + digitValue c + 1) * 10 ^ length s"
    by simp_all
  have "10 * a + digitValue c + 1 \<le> (a + 1) * 10" using d by simp
  then have "(10 * a + digitValue c + 1) * 10 ^ length s \<le> ((a + 1) * 10) * 10 ^ length s"
    by (rule mult_right_mono) simp
  also have "\<dots> = (a + 1) * 10 ^ length (c # s)" by simp
  finally have "foldl (\<lambda>a c. 10 * a + digitValue c) (10 * a + digitValue c) s
       < (a + 1) * 10 ^ length (c # s)"
    using ih(2) by (rule less_le_trans [rotated])
  with ih(1) show ?case by simp
qed

lemma parseInt_range:
  assumes "list_all isDigit s"
  shows "0 \<le> parseInt s \<and> parseInt s < 10 ^ length s"
proof -
  from assms have tw: "takeWhile isDigit s = s"
    by (simp add: takeWhile_eq_all_conv list_all_iff)
  show ?thesis
    unfolding parseInt_def tw using foldl_digits_range [OF assms, of 0] by simp
qed

lemma fixLayout_fields:
  assumes "fixLayout line"
  shows "0 \<le> parseInt (take 2 (drop 1 line)) \<and> parseInt (take 2 (drop 1 line)) < 100"
    and "0 \<le> parseInt (take 2 (drop 3 line)) \<and> parseInt (take 2 (drop 3 line)) < 100"
    and "0 \<le> parseInt (take 2 (drop 5 line)) \<and> parseInt (take 2 (drop 5 line)) < 100"
    and "0 \<le> parseInt (take 2 (drop 7 line)) \<and> parseInt (take 2 (drop 7 line)) < 100"
    and "0 \<le> parseInt (take 5 (drop 9 line)) \<and> parseInt (take 5 (drop 9 line)) < 100000"
    and "0 \<le> parseInt (take 3 (drop 15 line)) \<and> parseInt (take 3 (drop 15 line)) < 1000"
    and "0 \<le> parseInt (take 5 (drop 18 line)) \<and> parseInt (take 5 (drop 18 line)) < 100000"
    and "0 \<le> parseInt (take 5 (drop 25 line)) \<and> parseInt (take 5 (drop 25 line)) < 100000"
    and "0 \<le> parseInt (take 5 (drop 30 line)) \<and> parseInt (take 5 (drop 30 line)) < 100000"
proof -
  from assms have len: "35 \<le> length line" by (simp add: fixLayout_def)
  from assms have a: "list_all isDigit (take 13 (drop 1 line))"
      "list_all isDigit (take 8 (drop 15 line))" "list_all isDigit (take 10 (drop 25 line))"
    unfolding fixLayout_def by blast+
  have d: "list_all isDigit (take 2 (drop 1 line))"
      "list_all isDigit (take 2 (drop 3 line))" "list_all isDigit (take 2 (drop 5 line))"
      "list_all isDigit (take 2 (drop 7 line))" "list_all isDigit (take 5 (drop 9 line))"
      "list_all isDigit (take 3 (drop 15 line))" "list_all isDigit (take 5 (drop 18 line))"
      "list_all isDigit (take 5 (drop 25 line))" "list_all isDigit (take 5 (drop 30 line))"
    using a unfolding digits13 digits8 digits10 by simp_all
  show "0 \<le> parseInt (take 2 (drop 1 line)) \<and> parseInt (take 2 (drop 1 line)) < 100"
    using parseInt_range [OF d(1)] len by simp
  show "0 \<le> parseInt (take 2 (drop 3 line)) \<and> parseInt (take 2 (drop 3 line)) < 100"
    using parseInt_range [OF d(2)] len by simp
  show "0 \<le> parseInt (take 2 (drop 5 line)) \<and> parseInt (take 2 (drop 5 line)) < 100"
    using parseInt_range [OF d(3)] len by simp
  show "0 \<le> parseInt (take 2 (drop 7 line)) \<and> parseInt (take 2 (drop 7 line)) < 100"
    using parseInt_range [OF d(4)] len by simp
  show "0 \<le> parseInt (take 5 (drop 9 line)) \<and> parseInt (take 5 (drop 9 line)) < 100000"
    using parseInt_range [OF d(5)] len by simp
  show "0 \<le> parseInt (take 3 (drop 15 line)) \<and> parseInt (take 3 (drop 15 line)) < 1000"
    using parseInt_range [OF d(6)] len by simp
  show "0 \<le> parseInt (take 5 (drop 18 line)) \<and> parseInt (take 5 (drop 18 line)) < 100000"
    using parseInt_range [OF d(7)] len by simp
  show "0 \<le> parseInt (take 5 (drop 25 line)) \<and> parseInt (take 5 (drop 25 line)) < 100000"
    using parseInt_range [OF d(8)] len by simp
  show "0 \<le> parseInt (take 5 (drop 30 line)) \<and> parseInt (take 5 (drop 30 line)) < 100000"
    using parseInt_range [OF d(9)] len by simp
qed

subsection \<open>The point of a fix\<close>

lemma fixBranch_flat:
  assumes "fixLayout line"
  shows "flatCoordinates (fixBranch mode (fixGroups line) st) =
     flatCoordinates st @ [fixLongitude line, fixLatitude line]
       @ (if mode = IGCZ_NONE then []
          else [if mode = IGCZ_GPS then of_int (parseInt (take 5 (drop 25 line)))
                else if mode = IGCZ_BAROMETRIC then of_int (parseInt (take 5 (drop 30 line)))
                else 0])
       @ [of_int (lastDateTime (fixBranch mode (fixGroups line) st)) / 1000]"
proof -
  from assms have len: "35 \<le> length line" by (simp add: fixLayout_def)
  then have "take (Suc 0) (drop 14 line) = [line ! 14]" "take (Suc 0) (drop 23 line) = [line ! 23]"
    by (simp_all add: take1_drop)
  then show ?thesis
    by (simp add: fixBranch_def fixGroups_def fixLongitude_def fixLatitude_def Let_def)
qed

subsection \<open>The buffer as a sequence of points\<close>

lemma processLine_nofix:
  assumes "\<not> fixLayout l"
  shows "flatCoordinates (processLine mode st l) = flatCoordinates st
     \<and> lastDateTime (processLine mode st l) = lastDateTime st"
proof (cases "dateLayout l")
  case True
  then show ?thesis by (simp add: processLine_date)
next
  case False
  from processLine_other [OF assms False, of mode st]
  obtain p where "processLine mode st l = st\<lparr>properties := p\<rparr>" by blast
  then show ?thesis by simp
qed

lemma pointsRead_fix:
  assumes "fixLayout l"
  shows "pointsRead mode st (l # ls) =
     ([fixLongitude l, fixLatitude l]
       @ (if mode = IGCZ_NONE then []
          else [if mode = IGCZ_GPS then of_int (parseInt (take 5 (drop 25 l)))
                else if mode = IGCZ_BAROMETRIC then of_int (parseInt (take 5 (drop 30 l)))
                else 0])
       @ [of_int (lastDateTime (processLine mode st l)) / 1000])
     # pointsRead mode (processLine mode st l) ls"
  by (simp add: processLine_fix [OF assms] fixBranch_flat [OF assms] Let_def)

lemma pointsRead_nofix:
  "\<not> fixLayout l \<Longrightarrow> pointsRead mode st (l # ls) = pointsRead mode (processLine mode st l) ls"
  by (simp add: processLine_nofix Let_def)

lemma processLine_flat:
  "flatCoordinates (processLine mode st l)
     = flatCoordinates st @ concat (pointsRead mode st [l])"
proof (cases "fixLayout l")
  case True
  then show ?thesis
    by (simp add: pointsRead_fix) (simp add: processLine_fix fixBranch_flat)
next
  case False
  then show ?thesis by (simp add: pointsRead_nofix processLine_nofix)
qed

lemma pointsRead_Cons:
  "pointsRead mode st (l # ls) = pointsRead mode st [l] @ pointsRead mode (processLine mode st l) ls"
  by (simp add: Let_def)

declare pointsRead.simps(2) [simp del]

lemma readLines_flat:
  "flatCoordinates (readLines mode st ls) = flatCoordinates st @ concat (pointsRead mode st ls)"
proof (induction ls arbitrary: st)
  case Nil
  show ?case by simp
next
  case (Cons l ls)
  have "flatCoordinates (readLines mode st (l # ls))
      = flatCoordinates (processLine mode st l) @ concat (pointsRead mode (processLine mode st l) ls)"
    by (simp add: Cons.IH)
  also have "\<dots> = flatCoordinates st @ concat (pointsRead mode st [l])
      @ concat (pointsRead mode (processLine mode st l) ls)"
    by (simp only: processLine_flat append_assoc)
  also have "\<dots> = flatCoordinates st @ concat (pointsRead mode st (l # ls))"
    by (simp only: pointsRead_Cons [of mode st l ls] concat_append)
  finally show ?case .
qed

lemma pointsRead_length:
  "\<forall>p \<in> set (pointsRead mode st ls). length p = (if mode = IGCZ_NONE then 3 else 4)"
proof (induction ls arbitrary: st)
  case Nil
  show ?case by simp
next
  case (Cons l ls)
  show ?case
    by (cases "fixLayout l") (simp_all add: pointsRead_fix pointsRead_nofix Cons.IH)
qed



lemma pointsRead_z:
  "mode \<noteq> IGCZ_NONE \<Longrightarrow>
   map (\<lambda>p. p ! 2) (pointsRead mode st ls)
     = map (\<lambda>l. if mode = IGCZ_GPS then of_int (parseInt (take 5 (drop 25 l)))
                else if mode = IGCZ_BAROMETRIC then of_int (parseInt (take 5 (drop 30 l)))
                else 0) (filter fixLayout ls)"
proof (induction ls arbitrary: st)
  case Nil
  show ?case by simp
next
  case (Cons l ls)
  then show ?case
    by (cases "fixLayout l") (simp_all add: pointsRead_fix pointsRead_nofix)
qed

lemma take_drop_concat:
  "\<forall>p \<in> set ps. length p = n \<Longrightarrow> k < length ps \<Longrightarrow> take n (drop (n * k) (concat ps)) = ps ! k"
proof (induction ps arbitrary: k)
  case Nil
  then show ?case by simp
next
  case (Cons p ps)
  show ?case
  proof (cases k)
    case 0
    with Cons.prems show ?thesis by simp
  next
    case (Suc j)
    with Cons.prems have "take n (drop (n * j) (concat ps)) = ps ! j"
      by (intro Cons.IH) simp_all
    with Cons.prems Suc show ?thesis by simp
  qed
qed

lemma inflate_concat:
  assumes "0 < n" and "\<forall>p \<in> set ps. length p = n"
  shows "inflate n (concat ps) = ps"
proof -
  from assms(2) have len: "length (concat ps) = n * length ps"
    by (induction ps) simp_all
  from assms(1) have "n * length ps + n - 1 = (n - 1) + n * length ps" by simp
  moreover from assms(1) have "((n - 1) + n * length ps) div n = length ps + (n - 1) div n"
    by (simp only: div_mult_self2)
  moreover from assms(1) have "(n - 1) div n = 0" by simp
  ultimately have "(n * length ps + n - 1) div n = length ps" by simp
  then have "inflate n (concat ps) = map (\<lambda>k. take n (drop (n * k) (concat ps))) [0..<length ps]"
    by (simp add: inflate_def len)
  also have "\<dots> = map (\<lambda>k. ps ! k) [0..<length ps]"
    using assms(2) by (intro map_cong refl) (simp add: take_drop_concat)
  also have "\<dots> = ps" by (rule map_nth)
  finally show ?thesis .
qed

lemma readFeature_points:
  assumes "readFeatureFromText (\<lambda>g. g) mode text = Some f"
  shows "points (geometry f) = pointsRead mode initLocals (split_NEWLINE_RE text)
     \<and> layout (geometry f) = (if mode = IGCZ_NONE then XYM else XYZM)
     \<and> featureProperties f = properties (readLines mode initLocals (split_NEWLINE_RE text))"
proof -
  let ?ls = "split_NEWLINE_RE text"
  have fl: "flatCoordinates (readLines mode initLocals ?ls) = concat (pointsRead mode initLocals ?ls)"
    by (simp add: readLines_flat initLocals_def)
  from assms have g: "geometry f = LineString (concat (pointsRead mode initLocals ?ls))
       (if mode = IGCZ_NONE then XYM else XYZM)"
    and v: "featureProperties f = properties (readLines mode initLocals ?ls)"
    by (auto simp add: readFeatureFromText_def Let_def fl split: if_splits)
  have "inflate (if mode = IGCZ_NONE then 3 else 4) (concat (pointsRead mode initLocals ?ls))
        = pointsRead mode initLocals ?ls"
    by (rule inflate_concat) (simp_all add: pointsRead_length)
  then show ?thesis
    by (cases "mode = IGCZ_NONE") (simp_all add: g v points_def)
qed



subsection \<open>The validity letter\<close>

lemma fixBranch_cong:
  assumes "\<forall>k \<in> {1, 2, 3, 4, 5, 6, 7, 8, 9, 11, 12}. m ! k = m' ! k"
  shows "fixBranch mode m st = fixBranch mode m' st"
  using assms by (simp add: fixBranch_def Let_def)

lemma fixGroups_validity:
  "\<forall>k \<in> {1, 2, 3, 4, 5, 6, 7, 8, 9, 11, 12}. fixGroups (a[24 := v]) ! k = fixGroups a ! k"
  by (simp add: fixGroups_def drop_update_swap)

lemma processLine_validity:
  assumes "sameButValidity a b"
  shows "processLine mode st a = processLine mode st b"
proof (cases "a = b")
  case True
  then show ?thesis by simp
next
  case False
  with assms have fa: "fixLayout a" and fb: "fixLayout b" and b: "b = a[24 := b ! 24]"
    by (auto simp add: sameButValidity_def B_exec split: if_splits)
  have "fixBranch mode (fixGroups (a[24 := b ! 24])) st = fixBranch mode (fixGroups a) st"
    by (rule fixBranch_cong) (rule fixGroups_validity)
  with b have "fixBranch mode (fixGroups b) st = fixBranch mode (fixGroups a) st" by simp
  then show ?thesis
    by (simp add: processLine_fix [OF fa] processLine_fix [OF fb])
qed

lemma readLines_validity:
  "list_all2 sameButValidity ls ls' \<Longrightarrow> readLines mode st ls = readLines mode st ls'"
proof (induction ls ls' arbitrary: st rule: list_all2_induct)
  case Nil
  show ?case by simp
next
  case (Cons a ls b ls')
  then show ?case by (simp add: processLine_validity [of a b])
qed

subsection \<open>Timestamps\<close>

lemma Date_UTC_split:
  "Date_UTC y mo d h mi s = Date_UTC y mo d 0 0 0 + MakeTime h mi s 0"
  by (simp add: Date_UTC_def MakeDate_def MakeTime_def Let_def)

lemma Date_UTC_next_day:
  "Date_UTC y mo (d + 1) h mi s = Date_UTC y mo d h mi s + 86400000"
  by (simp add: Date_UTC_def MakeDate_def MakeDay_def Let_def algebra_simps)

lemma fixBranch_last:
  "last (flatCoordinates (fixBranch mode m st)) = of_int (lastDateTime (fixBranch mode m st)) / 1000"
  by (simp add: fixBranch_def Let_def)

lemma readLines_skip:
  "\<forall>l \<in> set ls. \<not> fixLayout l \<and> \<not> dateLayout l \<Longrightarrow>
     \<exists>p. readLines mode st ls = st\<lparr>properties := p\<rparr>"
proof (induction ls arbitrary: st)
  case Nil
  have "st = st\<lparr>properties := properties st\<rparr>" by simp
  then show ?case by (metis readLines.simps(1))
next
  case (Cons l ls)
  then have "\<not> fixLayout l" "\<not> dateLayout l" by simp_all
  from processLine_other [OF this, of mode st]
  obtain p where p: "processLine mode st l = st\<lparr>properties := p\<rparr>" by blast
  from Cons.prems have "\<forall>l \<in> set ls. \<not> fixLayout l \<and> \<not> dateLayout l" by simp
  from Cons.IH [OF this, of "st\<lparr>properties := p\<rparr>"]
  obtain q where "readLines mode (st\<lparr>properties := p\<rparr>) ls = st\<lparr>properties := p, properties := q\<rparr>"
    by blast
  then have "readLines mode st (l # ls) = st\<lparr>properties := q\<rparr>"
    by (simp add: p)
  then show ?case by blast
qed

lemma fixBranch_properties_irrelevant:
  "lastDateTime (fixBranch mode m (st\<lparr>properties := p\<rparr>)) = lastDateTime (fixBranch mode m st)
   \<and> flatCoordinates (fixBranch mode m (st\<lparr>properties := p\<rparr>))
       = flatCoordinates (fixBranch mode m st)"
  by (simp add: fixBranch_def Let_def)

subsection \<open>The date context\<close>

lemma monthStart_nonneg:
  assumes "0 \<le> mn" and "mn < 12"
  shows "0 \<le> monthStart mn leap"
proof -
  let ?tab = "[0, 31, 59, 90, 120, 151, 181, 212, 243, 273, 304, 334 :: int]"
  from assms have "nat mn < length ?tab" by simp
  then have "?tab ! nat mn \<in> set ?tab" by (rule nth_mem)
  then have "0 \<le> ?tab ! nat mn" by auto
  then show ?thesis by (simp add: monthStart_def)
qed

lemma DayFromYear_lower:
  assumes "1999 \<le> y"
  shows "10592 \<le> DayFromYear y"
proof (cases "y = 1999")
  case True
  then show ?thesis by (simp add: DayFromYear_def)
next
  case False
  with assms have y: "2000 \<le> y" by simp
  define p where "p = (y - 1969) div 4"
  define q where "q = (y - 1901) div 100"
  define r where "r = (y - 1601) div 400"
  from y have "28 div 4 \<le> (y - 1969) div 4" by (intro zdiv_mono1) simp_all
  then have a: "7 \<le> p" by (simp add: p_def)
  from y have b: "0 \<le> r" by (simp add: r_def pos_imp_zdiv_nonneg_iff)
  have "100 * q + (y - 1901) mod 100 = y - 1901"
    unfolding q_def by (rule mult_div_mod_eq)
  moreover have "0 \<le> (y - 1901) mod 100" by simp
  ultimately have c: "100 * q \<le> y - 1901" by simp
  from c y have "100 * q \<le> 100 * (y - 1990)" by simp
  then have "q \<le> y - 1990" by simp
  with a b y have "10592 \<le> 365 * (y - 1970) + p - q + r" by simp
  then show ?thesis by (simp add: DayFromYear_def p_def q_def r_def)
qed

lemma Date_UTC_nonneg:
  assumes "2000 \<le> y" and "- 1 \<le> mo" and "0 \<le> d"
  shows "0 \<le> Date_UTC y mo d 0 0 0"
proof -
  from assms(2) have "(- 1) div 12 \<le> mo div 12" by (intro zdiv_mono1) simp_all
  then have "- 1 \<le> mo div 12" by simp
  with assms(1) have "1999 \<le> y + mo div 12" by simp
  then have a: "10592 \<le> DayFromYear (y + mo div 12)" by (rule DayFromYear_lower)
  have b: "0 \<le> monthStart (mo mod 12) (InLeapYear (y + mo div 12))"
    by (rule monthStart_nonneg) simp_all
  from a b assms(3) have "0 \<le> MakeDay y mo d"
    by (simp add: MakeDay_def Let_def)
  with assms(1) show ?thesis
    by (simp add: Date_UTC_def MakeDate_def MakeTime_def)
qed

lemma dateLayout_fields:
  assumes "dateLayout line"
  shows "0 \<le> parseInt (take 2 (drop 5 line)) \<and> 0 \<le> parseInt (take 2 (drop 7 line))
     \<and> 0 \<le> parseInt (take 2 (drop 9 line))"
proof -
  from assms have "list_all isDigit (take 6 (drop 5 line))" by (simp add: dateLayout_def)
  then have "list_all isDigit (take 2 (drop 5 line))" "list_all isDigit (take 2 (drop 7 line))"
      "list_all isDigit (take 2 (drop 9 line))"
    using list_all_take_add [of isDigit 2 4 "drop 5 line"]
      list_all_take_add [of isDigit 2 2 "drop 7 line"]
    by simp_all
  then show ?thesis by (simp add: parseInt_range)
qed

subsection \<open>The time components\<close>

lemma processLine_stamp:
  assumes "fixLayout l"
  shows "lastDateTime (processLine mode st l) =
     (let c = Date_UTC (year st) (month st) (day st) (parseInt (fixGroups l ! 1))
                (parseInt (fixGroups l ! 2)) (parseInt (fixGroups l ! 3))
      in if c < lastDateTime st then c + 86400000 else c)"
  unfolding processLine_fix [OF assms] fixBranch_lastDateTime Date_UTC_next_day
  by (simp add: Let_def)

lemma pointsRead_times:
  "map last (pointsRead mode st ls)
     = map (\<lambda>t. of_int t / 1000)
         (stamps (lastDateTime st) (candidates (year st) (month st) (day st) ls))"
proof (induction ls arbitrary: st)
  case Nil
  show ?case by simp
next
  case (Cons l ls)
  show ?case
  proof (cases "fixLayout l")
    case True
    note d = processLine_fix [OF True, of mode st] fixBranch_date [of mode "fixGroups l" st]
    have ih: "map last (pointsRead mode (processLine mode st l) ls)
        = map (\<lambda>t. of_int t / 1000)
           (stamps (lastDateTime (processLine mode st l))
              (candidates (year st) (month st) (day st) ls))"
      using Cons.IH [of "processLine mode st l"] by (simp add: d)
    show ?thesis
      unfolding pointsRead_fix [OF True]
      by (simp add: True B_exec ih processLine_stamp [OF True] Let_def)
  next
    case False
    note nf = processLine_nofix [OF False, of mode st]
    show ?thesis
    proof (cases "dateLayout l")
      case True
      have ih: "map last (pointsRead mode (processLine mode st l) ls)
        = map (\<lambda>t. of_int t / 1000)
           (stamps (lastDateTime st)
              (candidates (2000 + parseInt (take 2 (drop 9 l)))
                 (parseInt (take 2 (drop 7 l)) - 1) (parseInt (take 2 (drop 5 l))) ls))"
        using Cons.IH [of "processLine mode st l"] nf
        by (simp add: processLine_date [OF True])
      show ?thesis
        by (simp add: pointsRead_nofix [OF False] B_exec D_exec False True ih dateGroups_def)
    next
      case nd: False
      have ih: "map last (pointsRead mode (processLine mode st l) ls)
        = map (\<lambda>t. of_int t / 1000)
           (stamps (lastDateTime st) (candidates (year st) (month st) (day st) ls))"
        using Cons.IH [of "processLine mode st l"] nf processLine_keeps_date [OF nd, of mode st]
        by simp
      show ?thesis
        by (simp add: pointsRead_nofix [OF False] B_exec D_exec False nd ih)
    qed
  qed
qed

lemma candidates_nonneg:
  "2000 \<le> y \<and> - 1 \<le> mo \<and> 0 \<le> d \<Longrightarrow> \<forall>c \<in> set (candidates y mo d ls). 0 \<le> c"
proof (induction ls arbitrary: y mo d)
  case Nil
  show ?case by simp
next
  case (Cons l ls)
  show ?case
  proof (cases "fixLayout l")
    case True
    from fixLayout_fields(1-3) [OF True]
    have "0 \<le> MakeTime (parseInt (fixGroups l ! 1)) (parseInt (fixGroups l ! 2))
        (parseInt (fixGroups l ! 3)) 0"
      by (simp add: fixGroups_def MakeTime_def)
    moreover from Cons.prems have "0 \<le> Date_UTC y mo d 0 0 0"
      by (intro Date_UTC_nonneg) simp_all
    ultimately have "0 \<le> Date_UTC y mo d (parseInt (fixGroups l ! 1))
        (parseInt (fixGroups l ! 2)) (parseInt (fixGroups l ! 3))"
      by (subst Date_UTC_split) simp
    then show ?thesis
      using Cons.IH [OF Cons.prems] by (simp add: B_exec True)
  next
    case False
    show ?thesis
    proof (cases "dateLayout l")
      case True
      from dateLayout_fields [OF True]
      have "2000 \<le> 2000 + parseInt (take 2 (drop 9 l))
          \<and> - 1 \<le> parseInt (take 2 (drop 7 l)) - 1 \<and> 0 \<le> parseInt (take 2 (drop 5 l))"
        by simp
      from Cons.IH [OF this] show ?thesis
        by (simp add: B_exec D_exec False True dateGroups_def)
    next
      case nd: False
      from Cons.IH [OF Cons.prems] show ?thesis
        by (simp add: B_exec D_exec False nd)
    qed
  qed
qed

subsection \<open>Timestamps of a sequence of candidates\<close>

lemma backSteps_sorted: "backSteps xs = [] \<Longrightarrow> sorted xs"
proof (induction xs rule: backSteps.induct)
  case (1 a b xs)
  from "1.prems" have ab: "a \<le> b" and "backSteps (b # xs) = []"
    by (simp_all split: if_splits)
  then have "sorted (b # xs)" by (intro "1.IH")
  with ab show ?case by (subst sorted2) simp
qed simp_all

lemma stamps_after_wrap:
  "sorted cs \<Longrightarrow> (case cs of [] \<Rightarrow> True | c # _ \<Rightarrow> lst \<le> c + 86400000) \<Longrightarrow>
   sorted (stamps lst cs) \<and> (\<forall>t \<in> set (stamps lst cs). lst \<le> t)"
proof (induction cs arbitrary: lst)
  case Nil
  show ?case by simp
next
  case (Cons c cs)
  define t where "t = (if c < lst then c + 86400000 else c)"
  have st: "stamps lst (c # cs) = t # stamps t cs"
    by (simp add: t_def Let_def)
  from Cons.prems have le: "lst \<le> t" and up: "t \<le> c + 86400000"
    by (simp_all add: t_def)
  from Cons.prems have "sorted cs" by simp
  moreover from Cons.prems up
  have "case cs of [] \<Rightarrow> True | b # _ \<Rightarrow> t \<le> b + 86400000"
    by (cases cs) auto
  ultimately have ih: "sorted (stamps t cs)" "\<forall>x \<in> set (stamps t cs). t \<le> x"
    using Cons.IH [of t] by simp_all
  show ?case
    unfolding st using ih le by auto
qed

lemma stamps_one_wrap:
  "length (backSteps cs) \<le> 1 \<Longrightarrow> \<forall>s \<in> set (backSteps cs). s \<le> 86400000 \<Longrightarrow>
   (case cs of [] \<Rightarrow> True | c # _ \<Rightarrow> lst \<le> c) \<Longrightarrow>
   sorted (stamps lst cs) \<and> (\<forall>t \<in> set (stamps lst cs). lst \<le> t)"
proof (induction cs arbitrary: lst)
  case Nil
  show ?case by simp
next
  case (Cons c cs)
  from Cons.prems have st: "stamps lst (c # cs) = c # stamps c cs" and le: "lst \<le> c"
    by (simp_all add: Let_def)
  have "sorted (stamps c cs) \<and> (\<forall>t \<in> set (stamps c cs). c \<le> t)"
  proof (cases cs)
    case Nil
    then show ?thesis by simp
  next
    case inner: (Cons b r)
    show ?thesis
    proof (cases "b < c")
      case True
      with Cons.prems(1) inner have "backSteps cs = []" by simp
      then have "sorted cs" by (rule backSteps_sorted)
      moreover from True Cons.prems(2) inner
      have "case cs of [] \<Rightarrow> True | b # _ \<Rightarrow> c \<le> b + 86400000"
        by simp
      ultimately show ?thesis by (intro stamps_after_wrap)
    next
      case False
      with Cons.prems(1,2) inner
      have "length (backSteps cs) \<le> 1" "\<forall>s \<in> set (backSteps cs). s \<le> 86400000"
        by simp_all
      moreover from False inner have "case cs of [] \<Rightarrow> True | b # _ \<Rightarrow> c \<le> b"
        by simp
      ultimately show ?thesis by (intro Cons.IH)
    qed
  qed
  then show ?case
    unfolding st using le by auto
qed

section \<open>The claims\<close>

text \<open>
  Claim C7. A document in which no line decodes as a fix (the empty document and a
  document of header lines among them) yields no feature: \<open>readFeatureFromText\<close>
  returns \<open>null\<close> and \<open>readFeaturesFromText\<close> the empty list, so the collected
  properties are dropped.
\<close>

theorem no_fix_no_feature:
  assumes "\<forall>l \<in> set (split_NEWLINE_RE text). regexExec B_RECORD_RE l = None"
  shows "readFeatureFromText tr mode text = None \<and> readFeaturesFromText tr mode text = []"
proof -
  from assms have "filter fixLayout (split_NEWLINE_RE text) = []"
    by (auto simp add: B_exec filter_empty_conv split: if_splits)
  then have "length (flatCoordinates (readLines mode initLocals (split_NEWLINE_RE text))) = 0"
    by (simp add: readLines_length initLocals_def)
  then show ?thesis
    by (simp add: readFeaturesFromText_def readFeatureFromText_def)
qed

theorem no_fix_no_feature_witness:
  "readFeatureFromText (\<lambda>g. g) ''gps'' ''HFPLTPILOTINCHARGE:John Doe'' = None
   \<and> readFeaturesFromText (\<lambda>g. g) ''gps'' ''HFPLTPILOTINCHARGE:John Doe'' = []
   \<and> readFeaturesFromText (\<lambda>g. g) ''none'' [] = []"
proof -
  have a: "\<forall>l \<in> set (split_NEWLINE_RE ''HFPLTPILOTINCHARGE:John Doe''). regexExec B_RECORD_RE l = None"
    by (simp add: split_NEWLINE_RE_def B_exec fixLayout_def)
  have b: "\<forall>l \<in> set (split_NEWLINE_RE []). regexExec B_RECORD_RE l = None"
    by (simp add: split_NEWLINE_RE_def B_exec fixLayout_def)
  show ?thesis
    using no_fix_no_feature [OF a, of "\<lambda>g. g" "''gps''"]
      no_fix_no_feature [OF b, of "\<lambda>g. g" "''none''"]
    by simp
qed

text \<open>
  Claim C6, amended. A line starting with \<open>B\<close> produces a fix if and only if its first
  35 characters have the fixed-width layout; what follows them is not looked at. A
  line without that layout (a shorter line among them) leaves every local variable as
  it was, and the document decodes as if the line were not there.
\<close>

theorem fix_iff_layout_prefix:
  assumes "take 1 line = ''B''"
  shows "(regexExec B_RECORD_RE line \<noteq> None) = fixLayout line
       \<and> length (flatCoordinates (processLine mode st line))
           = length (flatCoordinates st)
             + (if fixLayout line then (if mode = IGCZ_NONE then 3 else 4) else 0)
       \<and> (\<not> fixLayout line \<longrightarrow>
            processLine mode st line = st
            \<and> readLines mode st0 (xs @ line # ys) = readLines mode st0 (xs @ ys))"
proof -
  have "\<not> fixLayout line \<Longrightarrow> processLine mode s line = s" for s
    using assms by (simp add: processLine_B_nofix)
  then show ?thesis
    by (simp add: B_exec processLine_fix fixBranch_length readLines_append)
qed

theorem fix_iff_layout_prefix_witness:
  "regexExec B_RECORD_RE ''B1011105000000N00100000EA001230008'' = None
   \<and> processLine ''gps'' initLocals ''B1011105000000N00100000EA001230008'' = initLocals
   \<and> length (flatCoordinates (processLine ''gps'' initLocals ''B1011105000000N00100000EA0012300089'')) = 4"
proof -
  have a: "take 1 ''B1011105000000N00100000EA001230008'' = ''B''" by simp
  have b: "take 1 ''B1011105000000N00100000EA0012300089'' = ''B''" by simp
  have c: "\<not> fixLayout ''B1011105000000N00100000EA001230008''"
    by (simp add: fixLayout_def)
  have d: "fixLayout ''B1011105000000N00100000EA0012300089''"
    by (simp add: fixLayout_def isDigit_def)
  have e: "''gps'' \<noteq> IGCZ_NONE" by (simp add: IGCZ_NONE_def)
  show ?thesis
    using fix_iff_layout_prefix [OF a, of "''gps''" initLocals initLocals "[]" "[]"]
      fix_iff_layout_prefix [OF b, of "''gps''" initLocals initLocals "[]" "[]"] c d e
    by (simp add: initLocals_def)
qed

text \<open>
  Claim C6 as stated fails on a line that is longer than the layout: 38 characters, the
  first 35 of them a fix, decode to a point.
\<close>

theorem fix_longer_line_counterexample:
  "take 1 ''B1011105000000N00100000EA0012300089XYZ'' = ''B''
   \<and> \<not> fixLayoutExact ''B1011105000000N00100000EA0012300089XYZ''
   \<and> regexExec B_RECORD_RE ''B1011105000000N00100000EA0012300089XYZ'' \<noteq> None
   \<and> flatCoordinates (processLine ''none'' initLocals ''B1011105000000N00100000EA0012300089XYZ'')
       = [1, 50, 946721470]"
proof -
  have d: "fixLayout ''B1011105000000N00100000EA0012300089XYZ''"
    by (simp add: fixLayout_def isDigit_def)
  have "flatCoordinates (processLine ''none'' initLocals ''B1011105000000N00100000EA0012300089XYZ'')
       = [1, 50, 946721470]"
    by code_simp
  then show ?thesis
    using d by (simp add: B_exec fixLayoutExact_def)
qed

text \<open>
  Claim C5, amended. The three write methods are stubs: for every argument they complete
  normally and return \<open>undefined\<close>; nothing is thrown.
\<close>

theorem write_returns_undefined:
  "writeFeatureText feature opts = Return None
   \<and> writeFeaturesText features opts = Return None
   \<and> writeGeometryText geom opts = Return None"
  by (simp add: writeFeatureText_def writeFeaturesText_def writeGeometryText_def)

text \<open>Claim C5 as stated fails: writing the empty feature list throws nothing.\<close>

theorem write_not_signalled_counterexample:
  "\<not> (\<exists>msg. writeFeaturesText [] () = Throw msg)"
  by (simp add: writeFeaturesText_def)

text \<open>
  Claim C8. A line that \<open>HFDTE_RECORD_RE\<close> matches overwrites the date context,
  whatever it was: the day is DD, the month MM - 1, the year 2000 + YY, read at
  positions 5 to 10 of the line. The line changes neither the property mapping (the
  generic header pattern is not tried) nor the buffer. Until the next date header the
  context stays, so a fix that follows is stamped with the new date, or with the day
  after it when that lies before the previous timestamp: the fix appends its point to
  the buffer, with that timestamp divided by 1000 as the time component.
\<close>

theorem date_header_overwrites:
  assumes "regexExec HFDTE_RECORD_RE line = Some m"
  shows "processLine mode st line
           = st\<lparr>day := parseInt (m ! 1), month := parseInt (m ! 2) - 1,
                year := 2000 + parseInt (m ! 3)\<rparr>
       \<and> m ! 1 = take 2 (drop 5 line) \<and> m ! 2 = take 2 (drop 7 line)
       \<and> m ! 3 = take 2 (drop 9 line)
       \<and> properties (processLine mode st line) = properties st
       \<and> flatCoordinates (processLine mode st line) = flatCoordinates st
       \<and> ((\<forall>l \<in> set rest. regexExec HFDTE_RECORD_RE l = None)
            \<and> regexExec B_RECORD_RE b = Some mb \<longrightarrow>
          (let st' = readLines mode st (line # rest);
               t0 = Date_UTC (2000 + parseInt (m ! 3)) (parseInt (m ! 2) - 1) (parseInt (m ! 1))
                      (parseInt (mb ! 1)) (parseInt (mb ! 2)) (parseInt (mb ! 3));
               t = (if t0 < lastDateTime st'
                    then Date_UTC (2000 + parseInt (m ! 3)) (parseInt (m ! 2) - 1)
                           (parseInt (m ! 1) + 1)
                           (parseInt (mb ! 1)) (parseInt (mb ! 2)) (parseInt (mb ! 3))
                    else t0)
           in lastDateTime (processLine mode st' b) = t
            \<and> flatCoordinates (processLine mode st' b)
                = flatCoordinates st' @ [fixLongitude b, fixLatitude b]
                  @ (if mode = IGCZ_NONE then []
                     else [if mode = IGCZ_GPS then of_int (parseInt (mb ! 11))
                           else if mode = IGCZ_BAROMETRIC then of_int (parseInt (mb ! 12))
                           else 0])
                  @ [of_int t / 1000]))"
proof -
  from assms have dl: "dateLayout line" and m: "m = dateGroups line"
    by (auto simp add: D_exec split: if_splits)
  have g: "m ! 1 = take 2 (drop 5 line)" "m ! 2 = take 2 (drop 7 line)"
      "m ! 3 = take 2 (drop 9 line)"
    by (simp_all add: m dateGroups_def)
  have p: "processLine mode st line
           = st\<lparr>day := parseInt (m ! 1), month := parseInt (m ! 2) - 1,
                year := 2000 + parseInt (m ! 3)\<rparr>"
    unfolding g by (rule processLine_date [OF dl])
  define st' where "st' = readLines mode st (line # rest)"
  define t where "t = (if Date_UTC (2000 + parseInt (m ! 3)) (parseInt (m ! 2) - 1)
                      (parseInt (m ! 1)) (parseInt (mb ! 1)) (parseInt (mb ! 2))
                      (parseInt (mb ! 3)) < lastDateTime st'
                    then Date_UTC (2000 + parseInt (m ! 3)) (parseInt (m ! 2) - 1)
                           (parseInt (m ! 1) + 1)
                           (parseInt (mb ! 1)) (parseInt (mb ! 2)) (parseInt (mb ! 3))
                    else Date_UTC (2000 + parseInt (m ! 3)) (parseInt (m ! 2) - 1)
                      (parseInt (m ! 1)) (parseInt (mb ! 1)) (parseInt (mb ! 2))
                      (parseInt (mb ! 3)))"
  have later: "lastDateTime (processLine mode st' b) = t
      \<and> flatCoordinates (processLine mode st' b)
          = flatCoordinates st' @ [fixLongitude b, fixLatitude b]
            @ (if mode = IGCZ_NONE then []
               else [if mode = IGCZ_GPS then of_int (parseInt (mb ! 11))
                     else if mode = IGCZ_BAROMETRIC then of_int (parseInt (mb ! 12))
                     else 0])
            @ [of_int t / 1000]"
    if r: "\<forall>l \<in> set rest. regexExec HFDTE_RECORD_RE l = None"
      and b: "regexExec B_RECORD_RE b = Some mb"
  proof -
    from r have "\<forall>l \<in> set rest. \<not> dateLayout l"
      by (auto simp add: D_exec split: if_splits)
    from readLines_keeps_date [OF this, of mode "processLine mode st line"]
    have d: "year st' = 2000 + parseInt (m ! 3)" "month st' = parseInt (m ! 2) - 1"
        "day st' = parseInt (m ! 1)"
      by (simp_all add: p st'_def)
    from b have fl: "fixLayout b" and mb: "mb = fixGroups b"
      by (auto simp add: B_exec split: if_splits)
    have l: "lastDateTime (processLine mode st' b) = t"
      unfolding t_def mb by (simp only: processLine_fix [OF fl] fixBranch_lastDateTime d Let_def)
    have g11: "mb ! 11 = take 5 (drop 25 b)" "mb ! 12 = take 5 (drop 30 b)"
      by (simp_all add: mb fixGroups_def)
    have "flatCoordinates (processLine mode st' b)
          = flatCoordinates st' @ [fixLongitude b, fixLatitude b]
            @ (if mode = IGCZ_NONE then []
               else [if mode = IGCZ_GPS then of_int (parseInt (mb ! 11))
                     else if mode = IGCZ_BAROMETRIC then of_int (parseInt (mb ! 12))
                     else 0])
            @ [of_int (lastDateTime (processLine mode st' b)) / 1000]"
      unfolding g11 processLine_fix [OF fl] by (rule fixBranch_flat [OF fl])
    with l show ?thesis by simp
  qed
  show ?thesis
    unfolding Let_def st'_def [symmetric] t_def [symmetric]
    using p g later by simp
qed

theorem date_header_overwrites_witness:
  "H_RECORD_RE_exec ''HFDTE230820:abc'' = Some [''HFDTE230820:abc'', ''DTE'', ''abc'']
   \<and> processLine ''gps'' initLocals ''HFDTE230820:abc''
       = initLocals\<lparr>day := 23, month := 7, year := 2020\<rparr>
   \<and> properties (processLine ''gps'' initLocals ''HFDTE230820:abc'') = Map.empty
   \<and> lastDateTime (processLine ''gps'' (readLines ''gps'' initLocals [''HFDTE230820:abc''])
        ''B1011105000000N00100000EA0012300089'') = 1598177470000
   \<and> flatCoordinates (processLine ''gps'' (readLines ''gps'' initLocals [''HFDTE230820:abc''])
        ''B1011105000000N00100000EA0012300089'') = [1, 50, 123, 1598177470]"
proof -
  have a: "regexExec HFDTE_RECORD_RE ''HFDTE230820:abc'' = Some (dateGroups ''HFDTE230820:abc'')"
    by (simp add: D_exec dateLayout_def isDigit_def)
  have b: "regexExec B_RECORD_RE ''B1011105000000N00100000EA0012300089''
             = Some (fixGroups ''B1011105000000N00100000EA0012300089'')"
    by (simp add: B_exec fixLayout_def isDigit_def)
  have h: "H_RECORD_RE_exec ''HFDTE230820:abc'' = Some [''HFDTE230820:abc'', ''DTE'', ''abc'']"
    by code_simp
  have p: "parseInt ''23'' = 23" "parseInt ''08'' = 8" "parseInt ''20'' = 20"
    "parseInt ''10'' = 10" "parseInt ''11'' = 11" "parseInt ''00123'' = 123"
    by (simp_all add: parseInt_def isDigit_def digitValue_def)
  have u: "Date_UTC 2020 7 23 10 11 10 = 1598177470000"
    by code_simp
  have xy: "fixLongitude ''B1011105000000N00100000EA0012300089'' = 1"
      "fixLatitude ''B1011105000000N00100000EA0012300089'' = 50"
    by code_simp+
  note t = date_header_overwrites [OF a, where rest = "[]"
        and b = "''B1011105000000N00100000EA0012300089''"
        and mb = "fixGroups ''B1011105000000N00100000EA0012300089''"
        and mode = "''gps''" and st = initLocals]
  have s1: "processLine ''gps'' initLocals ''HFDTE230820:abc''
       = initLocals\<lparr>day := 23, month := 7, year := 2020\<rparr>"
    using t by (simp add: dateGroups_def p)
  note s2 = s1 [unfolded initLocals_def, simplified]
  show ?thesis
    using t b h
    by (simp add: s2 xy dateGroups_def fixGroups_def p u initLocals_def IGCZ_NONE_def
        IGCZ_GPS_def Let_def)
qed



text \<open>
  Claim C3, amended. For a line that decodes as a fix, the latitude is the double
  nearest to \<open>DD + q\<close>, where \<open>q\<close> is the double nearest to \<open>mmmmm / 60000\<close>,
  negated for the hemisphere letter S; the longitude is the same of \<open>DDD\<close> and its
  minutes, negated for W. The layout takes any digits, so the magnitudes are bounded by
  101 and 1001 only; they are at most 90 and 180 when the degrees are below 90 and 180
  and the minute field is below 60000.
\<close>

theorem fix_coordinates:
  assumes "regexExec B_RECORD_RE line = Some m"
  shows "(let n = length (flatCoordinates st);
              fc = flatCoordinates (processLine mode st line);
              la = fl64 (of_int (parseInt (m ! 4)) + fl64 (of_int (parseInt (m ! 5)) / 60000));
              lo = fl64 (of_int (parseInt (m ! 7)) + fl64 (of_int (parseInt (m ! 8)) / 60000))
          in fc ! n = (if m ! 9 = ''W'' then - lo else lo)
           \<and> fc ! (n + 1) = (if m ! 6 = ''S'' then - la else la)
           \<and> (m ! 6 = ''S'' \<or> m ! 6 = ''N'') \<and> (m ! 9 = ''W'' \<or> m ! 9 = ''E'')
           \<and> 0 \<le> la \<and> la \<le> 101
           \<and> 0 \<le> lo \<and> lo \<le> 1001
           \<and> (parseInt (m ! 4) < 90 \<and> parseInt (m ! 5) < 60000 \<longrightarrow>
                - 90 \<le> fc ! (n + 1) \<and> fc ! (n + 1) \<le> 90)
           \<and> (parseInt (m ! 7) < 180 \<and> parseInt (m ! 8) < 60000 \<longrightarrow>
                - 180 \<le> fc ! n \<and> fc ! n \<le> 180))"
proof -
  from assms have fl: "fixLayout line" and m: "m = fixGroups line"
    by (auto simp add: B_exec split: if_splits)
  from fl have len: "35 \<le> length line" by (simp add: fixLayout_def)
  then have c: "take (Suc 0) (drop 14 line) = [line ! 14]"
      "take (Suc 0) (drop 23 line) = [line ! 23]"
    by (simp_all add: take1_drop)
  have g: "m ! 4 = take 2 (drop 7 line)" "m ! 5 = take 5 (drop 9 line)"
    "m ! 7 = take 3 (drop 15 line)" "m ! 8 = take 5 (drop 18 line)"
    "m ! 6 = [line ! 14]" "m ! 9 = [line ! 23]"
    by (simp_all add: m fixGroups_def c)
  from fl have h: "line ! 14 = CHR ''S'' \<or> line ! 14 = CHR ''N''"
      "line ! 23 = CHR ''W'' \<or> line ! 23 = CHR ''E''"
    by (auto simp add: fixLayout_def)
  define a where "a = parseInt (take 2 (drop 7 line))"
  define b where "b = parseInt (take 5 (drop 9 line))"
  define c where "c = parseInt (take 3 (drop 15 line))"
  define d where "d = parseInt (take 5 (drop 18 line))"
  define la where "la = fl64 (of_int a + fl64 (of_int b / 60000))"
  define lo where "lo = fl64 (of_int c + fl64 (of_int d / 60000))"
  from fixLayout_fields [OF fl]
  have r: "0 \<le> a" "a \<le> 99" "0 \<le> b" "b \<le> 99999" "0 \<le> c" "c \<le> 999" "0 \<le> d" "d \<le> 99999"
    by (simp_all add: a_def b_def c_def d_def)
  have minutes: "0 \<le> fl64 (of_int k / 60000) \<and> fl64 (of_int k / 60000) \<le> 2
      \<and> (k < 60000 \<longrightarrow> fl64 (of_int k / 60000) \<le> 1)"
    if "0 \<le> k" "k \<le> 99999" for k :: int
  proof -
    from that have q: "(0::rat) \<le> of_int k / 60000" "(of_int k :: rat) / 60000 \<le> 2"
      by simp_all
    have "(of_int k :: rat) / 60000 \<le> 1" if "k < 60000" using that by simp
    with q show ?thesis
      using fl64_nonneg [OF q(1)] fl64_le [OF q(1) _ fl64_exact(3)]
        fl64_le [OF q(1) _ fl64_exact(2)]
      by simp
  qed
  have degrees: "0 \<le> fl64 (of_int k + q) \<and> fl64 (of_int k + q) \<le> of_int hi + 2
      \<and> (k < lim \<and> q \<le> 1 \<longrightarrow> fl64 (of_int k + q) \<le> of_int lim)"
    if "0 \<le> k" "k \<le> hi" "0 \<le> q" "q \<le> 2" "fl64 (of_int hi + 2) = of_int hi + 2"
      "fl64 (of_int lim) = of_int lim" for k hi lim :: int and q :: rat
  proof -
    from that have s: "0 \<le> of_int k + q" "of_int k + q \<le> of_int hi + 2"
      by simp_all
    have "of_int k + q \<le> of_int lim" if "k < lim" "q \<le> 1"
    proof -
      from that(1) have "k + 1 \<le> lim" by simp
      then have "(of_int (k + 1) :: rat) \<le> of_int lim" by (simp only: of_int_le_iff)
      with that(2) show ?thesis by simp
    qed
    then show ?thesis
      using fl64_nonneg [OF s(1)] fl64_le [OF s(1) s(2) that(5)]
        fl64_le [OF s(1) _ that(6)]
      by blast
  qed
  note mb = minutes [OF r(3) r(4)] and md = minutes [OF r(7) r(8)]
  have la: "0 \<le> la" "la \<le> 101" "a < 90 \<and> b < 60000 \<longrightarrow> la \<le> 90"
    using degrees [OF r(1) r(2), of "fl64 (of_int b / 60000)" 90] mb fl64_exact
    by (simp_all add: la_def)
  have lo: "0 \<le> lo" "lo \<le> 1001" "c < 180 \<and> d < 60000 \<longrightarrow> lo \<le> 180"
    using degrees [OF r(5) r(6), of "fl64 (of_int d / 60000)" 180] md fl64_exact
    by (simp_all add: lo_def)
  have x: "flatCoordinates (processLine mode st line) ! length (flatCoordinates st)
      = fixLongitude line"
    by (simp add: processLine_fix [OF fl] fixBranch_flat [OF fl] nth_append)
  have y: "flatCoordinates (processLine mode st line) ! (length (flatCoordinates st) + 1)
      = fixLatitude line"
    by (simp add: processLine_fix [OF fl] fixBranch_flat [OF fl] nth_append)
  have xv: "fixLongitude line = (if line ! 23 = CHR ''W'' then - lo else lo)"
    by (simp add: fixLongitude_def lo_def c_def d_def Let_def)
  have yv: "fixLatitude line = (if line ! 14 = CHR ''S'' then - la else la)"
    by (simp add: fixLatitude_def la_def a_def b_def Let_def)
  show ?thesis
    unfolding Let_def x y g xv yv a_def [symmetric] b_def [symmetric] c_def [symmetric]
      d_def [symmetric] la_def [symmetric] lo_def [symmetric]
    using h la lo by auto
qed

theorem fix_coordinates_witness:
  "flatCoordinates (processLine ''none'' initLocals ''B1011105012345S00120575WA0012300089'') ! 0
     = - (1511989749897407 / 1125899906842624)
   \<and> flatCoordinates (processLine ''none'' initLocals ''B1011105012345S00120575WA0012300089'') ! 1
     = - (7065831155995509 / 140737488355328)
   \<and> - 90 \<le> flatCoordinates
        (processLine ''none'' initLocals ''B1011105012345S00120575WA0012300089'') ! 1"
proof -
  have b: "regexExec B_RECORD_RE ''B1011105012345S00120575WA0012300089''
             = Some (fixGroups ''B1011105012345S00120575WA0012300089'')"
    by (simp add: B_exec fixLayout_def isDigit_def)
  have g: "fixGroups ''B1011105012345S00120575WA0012300089'' ! 4 = ''50''"
      "fixGroups ''B1011105012345S00120575WA0012300089'' ! 5 = ''12345''"
      "fixGroups ''B1011105012345S00120575WA0012300089'' ! 6 = ''S''"
      "fixGroups ''B1011105012345S00120575WA0012300089'' ! 7 = ''001''"
      "fixGroups ''B1011105012345S00120575WA0012300089'' ! 8 = ''20575''"
      "fixGroups ''B1011105012345S00120575WA0012300089'' ! 9 = ''W''"
    by (simp_all add: fixGroups_def)
  have v: "fl64 (of_int (parseInt ''50'') + fl64 (of_int (parseInt ''12345'') / 60000))
        = 7065831155995509 / 140737488355328"
      "fl64 (of_int (parseInt ''001'') + fl64 (of_int (parseInt ''20575'') / 60000))
        = 1511989749897407 / 1125899906842624"
    by code_simp+
  have p: "parseInt ''50'' < 90" "parseInt ''12345'' < 60000"
    by (simp_all add: parseInt_def isDigit_def digitValue_def)
  show ?thesis
    using fix_coordinates [OF b, of initLocals "''none''"] p
    unfolding g v Let_def by (simp add: initLocals_def)
qed

text \<open>
  Claim C3 as stated fails: the fix line with the latitude field \<open>9900000N\<close> and the
  longitude field \<open>99900000E\<close> decodes to the latitude 99 and the longitude 999.
\<close>

theorem latitude_out_of_range_counterexample:
  "regexExec B_RECORD_RE ''B1011109900000N99900000EA0012300089'' \<noteq> None
   \<and> map_option geometry (readFeatureFromText (\<lambda>g. g) ''none'' ''B1011109900000N99900000EA0012300089'')
       = Some (LineString [999, 99, 946721470] XYM)
   \<and> \<not> ((99::rat) \<le> 90) \<and> \<not> ((999::rat) \<le> 180)"
proof -
  have "regexExec B_RECORD_RE ''B1011109900000N99900000EA0012300089'' \<noteq> None"
    by (simp add: B_exec fixLayout_def isDigit_def)
  moreover have "map_option geometry
       (readFeatureFromText (\<lambda>g. g) ''none'' ''B1011109900000N99900000EA0012300089'')
       = Some (LineString [999, 99, 946721470] XYM)"
    by code_simp
  ultimately show ?thesis by simp
qed

text \<open>
  Claim C10, amended. If the configured altitude mode is a non-empty string other than
  \<open>none\<close>, the constructor keeps it, the layout is XYZM and every point has 4
  components; when the string is neither \<open>gps\<close> nor \<open>barometric\<close>, component 2
  of every point is 0.
\<close>

theorem unrecognised_mode_zero_altitude:
  assumes "a \<noteq> []" and "a \<noteq> IGCZ_NONE"
    and "readFeatureFromText (\<lambda>g. g) (IGC_new (Some a)) text = Some f"
  shows "IGC_new (Some a) = a
       \<and> layout (geometry f) = XYZM
       \<and> (\<forall>p \<in> set (points (geometry f)). length p = 4)
       \<and> (a \<noteq> IGCZ_GPS \<and> a \<noteq> IGCZ_BAROMETRIC \<longrightarrow>
            (\<forall>p \<in> set (points (geometry f)). p ! 2 = 0))"
proof -
  from assms(1) have n: "IGC_new (Some a) = a" by (simp add: IGC_new_def)
  note r = readFeature_points [OF assms(3) [unfolded n]]
  let ?ps = "pointsRead a initLocals (split_NEWLINE_RE text)"
  have z: "\<forall>p \<in> set ?ps. p ! 2 = 0" if "a \<noteq> IGCZ_GPS" "a \<noteq> IGCZ_BAROMETRIC"
  proof
    fix p assume "p \<in> set ?ps"
    then have "p ! 2 \<in> set (map (\<lambda>p. p ! 2) ?ps)" by simp
    also have "map (\<lambda>p. p ! 2) ?ps
        = map (\<lambda>l. 0) (filter fixLayout (split_NEWLINE_RE text))"
      using pointsRead_z [OF assms(2), of initLocals "split_NEWLINE_RE text"] that by simp
    finally show "p ! 2 = 0" by auto
  qed
  show ?thesis
    using n r assms(2) pointsRead_length [of a initLocals "split_NEWLINE_RE text"] z
    by simp
qed

theorem unrecognised_mode_zero_altitude_witness:
  "IGC_new (Some ''GPS'') = ''GPS''
   \<and> map_option geometry (readFeatureFromText (\<lambda>g. g) (IGC_new (Some ''GPS''))
        ''B1011105000000N00100000EA0012300089'')
       = Some (LineString [1, 50, 0, 946721470] XYZM)
   \<and> list_all (\<lambda>p. length p = 4 \<and> p ! 2 = 0)
        (points (geometry (the (readFeatureFromText (\<lambda>g. g) (IGC_new (Some ''GPS''))
        ''B1011105000000N00100000EA0012300089''))))"
proof -
  let ?t = "''B1011105000000N00100000EA0012300089''"
  have e: "map_option geometry (readFeatureFromText (\<lambda>g. g) (IGC_new (Some ''GPS'')) ?t)
       = Some (LineString [1, 50, 0, 946721470] XYZM)"
    by code_simp
  then have f: "readFeatureFromText (\<lambda>g. g) (IGC_new (Some ''GPS'')) ?t
      = Some (the (readFeatureFromText (\<lambda>g. g) (IGC_new (Some ''GPS'')) ?t))"
    by (cases "readFeatureFromText (\<lambda>g. g) (IGC_new (Some ''GPS'')) ?t") simp_all
  have a: "''GPS'' \<noteq> []" "''GPS'' \<noteq> IGCZ_NONE" "''GPS'' \<noteq> IGCZ_GPS"
      "''GPS'' \<noteq> IGCZ_BAROMETRIC"
    by (simp_all add: IGCZ_NONE_def IGCZ_GPS_def IGCZ_BAROMETRIC_def)
  show ?thesis
    using unrecognised_mode_zero_altitude [OF a(1) a(2) f] e a(3) a(4)
    by (simp add: list_all_iff)
qed

text \<open>
  Claim C10 as stated fails for the empty string: it is not \<open>none\<close>, but it is
  falsy, the constructor replaces it by \<open>none\<close>, and the points have 3 components.
\<close>

theorem empty_mode_is_none_counterexample:
  "[] \<noteq> IGCZ_NONE
   \<and> map_option (\<lambda>f. points (geometry f)) (readFeatureFromText (\<lambda>g. g) (IGC_new (Some []))
        ''B1011105000000N00100000EA0012300089'')
       = Some [[1, 50, 946721470]]"
proof -
  have "map_option (\<lambda>f. points (geometry f)) (readFeatureFromText (\<lambda>g. g) (IGC_new (Some []))
        ''B1011105000000N00100000EA0012300089'')
       = Some [[1, 50, 946721470]]"
    by code_simp
  then show ?thesis by (simp add: IGCZ_NONE_def)
qed

text \<open>
  Claim C9. Two documents whose lines are pairwise the same, but for fix lines that
  differ in the validity letter alone (\<open>A\<close> in one, \<open>V\<close> in the other), decode to
  the same result: the same feature or none, with the same points and properties. A fix
  marked void is decoded like a valid one.
\<close>

theorem validity_letter_ignored:
  assumes "list_all2 sameButValidity (split_NEWLINE_RE text1) (split_NEWLINE_RE text2)"
  shows "readFeatureFromText tr mode text1 = readFeatureFromText tr mode text2
       \<and> readFeaturesFromText tr mode text1 = readFeaturesFromText tr mode text2"
  by (simp add: readFeaturesFromText_def readFeatureFromText_def readLines_validity [OF assms])

theorem validity_letter_ignored_witness:
  "readFeatureFromText (\<lambda>g. g) ''gps'' ''B1011105000000N00100000EV0012300089''
     = readFeatureFromText (\<lambda>g. g) ''gps'' ''B1011105000000N00100000EA0012300089''
   \<and> map_option geometry (readFeatureFromText (\<lambda>g. g) ''gps'' ''B1011105000000N00100000EV0012300089'')
     = Some (LineString [1, 50, 123, 946721470] XYZM)"
proof -
  have a: "regexExec B_RECORD_RE ''B1011105000000N00100000EV0012300089'' \<noteq> None"
      "regexExec B_RECORD_RE ''B1011105000000N00100000EA0012300089'' \<noteq> None"
    by (simp_all add: B_exec fixLayout_def isDigit_def)
  have u: "''B1011105000000N00100000EA0012300089''
      = ''B1011105000000N00100000EV0012300089''[24 := ''B1011105000000N00100000EA0012300089'' ! 24]"
    by code_simp
  have h: "list_all2 sameButValidity (split_NEWLINE_RE ''B1011105000000N00100000EV0012300089'')
      (split_NEWLINE_RE ''B1011105000000N00100000EA0012300089'')"
    using a u by (simp add: split_NEWLINE_RE_def sameButValidity_def)
  have e: "map_option geometry
      (readFeatureFromText (\<lambda>g. g) ''gps'' ''B1011105000000N00100000EV0012300089'')
     = Some (LineString [1, 50, 123, 946721470] XYZM)"
    by code_simp
  show ?thesis
    using validity_letter_ignored [OF h, of "\<lambda>g. g" "''gps''"] e by simp
qed

text \<open>
  Claim C2, amended. The timestamp of a decoded fix is \<open>Date.UTC\<close> of the current date
  context and the hour, minute and second of the fix; if that candidate lies strictly
  before the previous timestamp, it is \<open>Date.UTC\<close> with \<open>day + 1\<close> instead. The
  time component is that timestamp divided by 1000. For a fix at 23:59:58 whose own
  timestamp is its candidate, followed (with no fix and no date header between) by a
  fix at 00:00:02, the second timestamp exceeds the first by 4000 ms, the time component
  by 4.
\<close>

theorem midnight_rollover:
  assumes "regexExec B_RECORD_RE l = Some m"
  shows "(let c = Date_UTC (year st) (month st) (day st)
                    (parseInt (m ! 1)) (parseInt (m ! 2)) (parseInt (m ! 3));
              t = (if c < lastDateTime st
                   then Date_UTC (year st) (month st) (day st + 1)
                          (parseInt (m ! 1)) (parseInt (m ! 2)) (parseInt (m ! 3))
                   else c);
              s1 = processLine mode st l
          in lastDateTime s1 = t
           \<and> last (flatCoordinates s1) = of_int t / 1000
           \<and> (m ! 1 = ''23'' \<and> m ! 2 = ''59'' \<and> m ! 3 = ''58'' \<and> \<not> c < lastDateTime st
               \<and> (\<forall>x \<in> set mid. regexExec B_RECORD_RE x = None
                      \<and> regexExec HFDTE_RECORD_RE x = None)
               \<and> regexExec B_RECORD_RE l2 = Some m2
               \<and> m2 ! 1 = ''00'' \<and> m2 ! 2 = ''00'' \<and> m2 ! 3 = ''02'' \<longrightarrow>
               (let s2 = readLines mode s1 (mid @ [l2])
                in lastDateTime s2 = t + 4000
                 \<and> last (flatCoordinates s2) = last (flatCoordinates s1) + 4)))"
proof -
  from assms have fl: "fixLayout l" and m: "m = fixGroups l"
    by (auto simp add: B_exec split: if_splits)
  define c where "c = Date_UTC (year st) (month st) (day st)
                    (parseInt (m ! 1)) (parseInt (m ! 2)) (parseInt (m ! 3))"
  define t where "t = (if c < lastDateTime st
                   then Date_UTC (year st) (month st) (day st + 1)
                          (parseInt (m ! 1)) (parseInt (m ! 2)) (parseInt (m ! 3))
                   else c)"
  define s1 where "s1 = processLine mode st l"
  have s1: "s1 = fixBranch mode m st"
    by (simp add: s1_def processLine_fix [OF fl] m)
  have a: "lastDateTime s1 = t"
    unfolding s1 t_def c_def by (simp only: fixBranch_lastDateTime Let_def)
  have b: "last (flatCoordinates s1) = of_int t / 1000"
    unfolding a [symmetric] s1 by (rule fixBranch_last)
  have d: "year s1 = year st" "month s1 = month st" "day s1 = day st"
    by (simp_all add: s1 fixBranch_date)
  have r: "lastDateTime (readLines mode s1 (mid @ [l2])) = t + 4000
        \<and> last (flatCoordinates (readLines mode s1 (mid @ [l2]))) = last (flatCoordinates s1) + 4"
    if h: "m ! 1 = ''23''" "m ! 2 = ''59''" "m ! 3 = ''58''" "\<not> c < lastDateTime st"
      and mid: "\<forall>x \<in> set mid. regexExec B_RECORD_RE x = None \<and> regexExec HFDTE_RECORD_RE x = None"
      and l2: "regexExec B_RECORD_RE l2 = Some m2"
      and h2: "m2 ! 1 = ''00''" "m2 ! 2 = ''00''" "m2 ! 3 = ''02''"
  proof -
    have p: "parseInt ''23'' = 23" "parseInt ''59'' = 59" "parseInt ''58'' = 58"
        "parseInt ''00'' = 0" "parseInt ''02'' = 2"
      by (simp_all add: parseInt_def isDigit_def digitValue_def)
    from l2 have fl2: "fixLayout l2" and m2: "m2 = fixGroups l2"
      by (auto simp add: B_exec split: if_splits)
    from mid have "\<forall>x \<in> set mid. \<not> fixLayout x \<and> \<not> dateLayout x"
      by (auto simp add: B_exec D_exec split: if_splits)
    from readLines_skip [OF this, of mode s1]
    obtain q where q: "readLines mode s1 mid = s1\<lparr>properties := q\<rparr>" by blast
    have s2: "readLines mode s1 (mid @ [l2]) = fixBranch mode m2 (s1\<lparr>properties := q\<rparr>)"
      by (simp add: readLines_append q processLine_fix [OF fl2] m2)
    have tv: "t = Date_UTC (year st) (month st) (day st) 0 0 0 + 86398000"
      using h(4) unfolding t_def c_def h p
      by (simp add: Date_UTC_split [of _ _ _ 23 59 58] MakeTime_def)
    have "lastDateTime (fixBranch mode m2 s1)
        = Date_UTC (year st) (month st) (day st) 0 0 0 + 86400000 + 2000"
      unfolding fixBranch_lastDateTime h2 p d a tv Let_def
      by (simp add: Date_UTC_next_day Date_UTC_split [of _ _ _ 0 0 2] MakeTime_def)
    then have l: "lastDateTime (readLines mode s1 (mid @ [l2])) = t + 4000"
      by (simp add: s2 fixBranch_properties_irrelevant tv)
    have "last (flatCoordinates (readLines mode s1 (mid @ [l2])))
        = of_int (t + 4000) / 1000"
      unfolding l [symmetric] s2 by (rule fixBranch_last)
    also have "\<dots> = last (flatCoordinates s1) + 4"
      by (simp add: b add_divide_distrib)
    finally show ?thesis using l by simp
  qed
  show ?thesis
    unfolding Let_def c_def [symmetric] t_def [symmetric] s1_def [symmetric]
    using a b r by blast
qed

theorem midnight_rollover_witness:
  "lastDateTime (processLine ''none'' initLocals ''B2359580000000N00000000EA0000000000'')
     = 946771198000
   \<and> lastDateTime (readLines ''none''
        (processLine ''none'' initLocals ''B2359580000000N00000000EA0000000000'')
        ([''HFPLTPILOT:x''] @ [''B0000020000000N00000000EA0000000000'']))
     = 946771198000 + 4000"
proof -
  have b1: "regexExec B_RECORD_RE ''B2359580000000N00000000EA0000000000''
             = Some (fixGroups ''B2359580000000N00000000EA0000000000'')"
    by (simp add: B_exec fixLayout_def isDigit_def)
  have b2: "regexExec B_RECORD_RE ''B0000020000000N00000000EA0000000000''
             = Some (fixGroups ''B0000020000000N00000000EA0000000000'')"
    by (simp add: B_exec fixLayout_def isDigit_def)
  have hm: "regexExec B_RECORD_RE ''HFPLTPILOT:x'' = None"
      "regexExec HFDTE_RECORD_RE ''HFPLTPILOT:x'' = None"
    by (simp_all add: B_exec D_exec fixLayout_def dateLayout_def)
  have g: "fixGroups ''B2359580000000N00000000EA0000000000'' ! 1 = ''23''"
      "fixGroups ''B2359580000000N00000000EA0000000000'' ! 2 = ''59''"
      "fixGroups ''B2359580000000N00000000EA0000000000'' ! 3 = ''58''"
      "fixGroups ''B0000020000000N00000000EA0000000000'' ! 1 = ''00''"
      "fixGroups ''B0000020000000N00000000EA0000000000'' ! 2 = ''00''"
      "fixGroups ''B0000020000000N00000000EA0000000000'' ! 3 = ''02''"
    by (simp_all add: fixGroups_def)
  have p: "parseInt ''23'' = 23" "parseInt ''59'' = 59" "parseInt ''58'' = 58"
    by (simp_all add: parseInt_def isDigit_def digitValue_def)
  have i: "year initLocals = 2000" "month initLocals = 0" "day initLocals = 1"
      "lastDateTime initLocals = - 1"
    by (simp_all add: initLocals_def)
  have c: "Date_UTC 2000 0 1 23 59 58 = 946771198000"
    by code_simp
  show ?thesis
    using midnight_rollover [OF b1, where st = initLocals and mode = "''none''"
        and mid = "[''HFPLTPILOT:x'']" and ?l2.0 = "''B0000020000000N00000000EA0000000000''"
        and ?m2.0 = "fixGroups ''B0000020000000N00000000EA0000000000''"]
      b2 hm
    unfolding g p i c Let_def by simp
qed

text \<open>
  Claim C2 as stated fails for two consecutive fixes at the second midnight of a
  document: the fix at 23:59:58 was itself moved to the next day, the fix at 00:00:02 is
  moved by one day only, and its time component is 86396 less.
\<close>

theorem second_midnight_counterexample:
  "map_option (\<lambda>f. times (geometry f)) (readFeatureFromText (\<lambda>g. g) ''none''
      (''B2359580000000N00000000EA0000000000'' @ [CHR 0x0A]
       @ ''B0000020000000N00000000EA0000000000'' @ [CHR 0x0A]
       @ ''B2359580000000N00000000EA0000000000'' @ [CHR 0x0A]
       @ ''B0000020000000N00000000EA0000000000''))
     = Some [946771198, 946771202, 946857598, 946771202]
   \<and> (946771202 :: rat) \<noteq> 946857598 + 4"
proof -
  have "map_option (\<lambda>f. times (geometry f)) (readFeatureFromText (\<lambda>g. g) ''none''
      (''B2359580000000N00000000EA0000000000'' @ [CHR 0x0A]
       @ ''B0000020000000N00000000EA0000000000'' @ [CHR 0x0A]
       @ ''B2359580000000N00000000EA0000000000'' @ [CHR 0x0A]
       @ ''B0000020000000N00000000EA0000000000''))
     = Some [946771198, 946771202, 946857598, 946771202]"
    by code_simp
  then show ?thesis by simp
qed

text \<open>
  Claim C1, amended. Take the candidate timestamps of the fixes of a document, each the
  calendar timestamp of the date context in force and the time of the fix. If they step
  backwards at most once, and then by no more than 24 hours (the fixes cross at most
  one midnight that no date header announces), the time components of the decoded track
  are non-decreasing.
\<close>

theorem times_nondecreasing_one_wrap:
  assumes "length (backSteps (candidates 2000 0 1 (split_NEWLINE_RE text))) \<le> 1"
    and "\<forall>s \<in> set (backSteps (candidates 2000 0 1 (split_NEWLINE_RE text))). s \<le> 86400000"
    and "readFeatureFromText (\<lambda>g. g) mode text = Some f"
  shows "sorted (times (geometry f))"
proof -
  define cs where "cs = candidates 2000 0 1 (split_NEWLINE_RE text)"
  have "times (geometry f) = map last (pointsRead mode initLocals (split_NEWLINE_RE text))"
    using readFeature_points [OF assms(3)] by (simp add: times_def)
  also have "\<dots> = map (\<lambda>t. of_int t / 1000) (stamps (- 1) cs)"
    unfolding pointsRead_times cs_def by (simp add: initLocals_def)
  finally have t: "times (geometry f) = map (\<lambda>t. of_int t / 1000) (stamps (- 1) cs)" .
  have "\<forall>c \<in> set cs. 0 \<le> c"
    unfolding cs_def by (rule candidates_nonneg) simp
  then have "case cs of [] \<Rightarrow> True | c # _ \<Rightarrow> - 1 \<le> c"
    by (cases cs) auto
  with assms(1,2) have "sorted (stamps (- 1) cs)"
    using stamps_one_wrap [of cs "- 1"] by (simp add: cs_def)
  then have "sorted (map (\<lambda>t. (of_int t :: rat) / 1000) (stamps (- 1) cs))"
    by (simp add: sorted_map sorted_wrt_iff_nth_less sorted_iff_nth_mono_less divide_right_mono)
  with t show ?thesis by simp
qed

theorem times_nondecreasing_one_wrap_witness:
  "map_option (\<lambda>f. times (geometry f)) (readFeatureFromText (\<lambda>g. g) ''none''
      (''HFDTE230820'' @ [CHR 0x0A]
       @ ''B2359580000000N00000000EA0000000000'' @ [CHR 0x0A]
       @ ''B0000020000000N00000000EA0000000000''))
     = Some [1598227198, 1598227202]
   \<and> sorted (times (geometry (the (readFeatureFromText (\<lambda>g. g) ''none''
      (''HFDTE230820'' @ [CHR 0x0A]
       @ ''B2359580000000N00000000EA0000000000'' @ [CHR 0x0A]
       @ ''B0000020000000N00000000EA0000000000'')))))"
proof -
  let ?t = "''HFDTE230820'' @ [CHR 0x0A]
       @ ''B2359580000000N00000000EA0000000000'' @ [CHR 0x0A]
       @ ''B0000020000000N00000000EA0000000000''"
  have e: "map_option (\<lambda>f. times (geometry f)) (readFeatureFromText (\<lambda>g. g) ''none'' ?t)
     = Some [1598227198, 1598227202]"
    by code_simp
  then have f: "readFeatureFromText (\<lambda>g. g) ''none'' ?t
      = Some (the (readFeatureFromText (\<lambda>g. g) ''none'' ?t))"
    by (cases "readFeatureFromText (\<lambda>g. g) ''none'' ?t") simp_all
  have c: "candidates 2000 0 1 (split_NEWLINE_RE ?t) = [1598227198000, 1598140802000]"
    by code_simp
  have a1: "length (backSteps (candidates 2000 0 1 (split_NEWLINE_RE ?t))) \<le> 1"
    unfolding c by simp
  have a2: "\<forall>s \<in> set (backSteps (candidates 2000 0 1 (split_NEWLINE_RE ?t))). s \<le> 86400000"
    unfolding c by simp
  show ?thesis
    using times_nondecreasing_one_wrap [OF a1 a2 f] e by simp
qed

text \<open>
  Claim C1 as stated fails on a document that crosses two midnights with no date header:
  fixes at 23:00, 12:00, 23:00 and 01:00 decode to a track whose last time component is
  smaller than the one before it.
\<close>

theorem two_midnights_counterexample:
  "map_option (\<lambda>f. times (geometry f)) (readFeatureFromText (\<lambda>g. g) ''none''
      (''B2300000000000N00000000EA0000000000'' @ [CHR 0x0A]
       @ ''B1200000000000N00000000EA0000000000'' @ [CHR 0x0A]
       @ ''B2300000000000N00000000EA0000000000'' @ [CHR 0x0A]
       @ ''B0100000000000N00000000EA0000000000''))
     = Some [946767600, 946814400, 946854000, 946774800]
   \<and> \<not> sorted [946767600, 946814400, 946854000, 946774800 :: rat]"
proof -
  have "map_option (\<lambda>f. times (geometry f)) (readFeatureFromText (\<lambda>g. g) ''none''
      (''B2300000000000N00000000EA0000000000'' @ [CHR 0x0A]
       @ ''B1200000000000N00000000EA0000000000'' @ [CHR 0x0A]
       @ ''B2300000000000N00000000EA0000000000'' @ [CHR 0x0A]
       @ ''B0100000000000N00000000EA0000000000''))
     = Some [946767600, 946814400, 946854000, 946774800]"
    by code_simp
  then show ?thesis by simp
qed

end
